theory Spec2Isabelle
  imports Complex_Main "HOL-Library.AList"
begin

section \<open>JavaScript numbers\<close>

text \<open>
  The dashboard computes with JavaScript numbers, which are IEEE 754 doubles. A finite
  non-negative double is kept as a pair of a significand and a binary exponent,
  \<open>Finite m e\<close> standing for \<open>m * 2 ^ e\<close>; the two special values a division can
  produce are constructors of their own. A double that holds a non-negative integer is
  given by that integer, a natural number. The exponent of the model has no bounds:
  subnormal numbers and overflow need counts of \<open>2 ^ 1022\<close> posts and more, and are
  not modelled.
\<close>

datatype number = Finite nat int | Infinity | NotANumber

fun bit_length :: "nat \<Rightarrow> nat" where
  "bit_length n = (if n = 0 then 0 else Suc (bit_length (n div 2)))"

declare bit_length.simps [simp del]

definition pow2 :: "int \<Rightarrow> rat" where
  "pow2 k = (if 0 \<le> k then 2 ^ nat k else 1 / 2 ^ nat (- k))"

fun value_of :: "number \<Rightarrow> rat" where
  "value_of (Finite m e) = of_nat m * pow2 e"
| "value_of Infinity = 0"
| "value_of NotANumber = 0"

text \<open>
  \<open>round_ratio p q\<close> is the double nearest to the exact quotient \<open>p / q\<close>
  (for \<open>q > 0\<close>), ties going to the even significand: the rounding every IEEE
  operation applies to its exact result. The exponent is chosen so that the quotient,
  before rounding, has a significand of 53 bits.
\<close>

definition round_ratio :: "nat \<Rightarrow> nat \<Rightarrow> number" where
  "round_ratio p q =
     (if p = 0 then Finite 0 0
      else
        let d = int (bit_length p) - int (bit_length q);
            below = (if 0 \<le> d then q * 2 ^ nat d \<le> p else q \<le> p * 2 ^ nat (- d));
            e = (if below then d else d - 1) - 52;
            num = (if e < 0 then p * 2 ^ nat (- e) else p);
            den = (if e < 0 then q else q * 2 ^ nat e);
            f = num div den;
            r = num mod den
        in Finite (if 2 * r < den then f
                   else if den < 2 * r then f + 1
                   else if even f then f else f + 1) e)"

definition js_div :: "nat \<Rightarrow> nat \<Rightarrow> number" where
  \<comment> \<open>\<open>a / b\<close> on two counts; a zero divisor gives \<open>NaN\<close> or \<open>Infinity\<close>, never a fault\<close>
  "js_div a b =
     (if b = 0 then (if a = 0 then NotANumber else Infinity) else round_ratio a b)"

fun js_mul :: "number \<Rightarrow> nat \<Rightarrow> number" where
  \<comment> \<open>\<open>x * k\<close> for a positive integer constant \<open>k\<close>\<close>
  "js_mul (Finite m e) k =
     (if e < 0 then round_ratio (m * k) (2 ^ nat (- e))
      else round_ratio (m * k * 2 ^ nat e) 1)"
| "js_mul Infinity k = (if k = 0 then NotANumber else Infinity)"
| "js_mul NotANumber k = NotANumber"

fun integer_value :: "number \<Rightarrow> nat" where
  \<comment> \<open>the value of a double that holds a non-negative integer\<close>
  "integer_value (Finite m e) = (if e < 0 then m div 2 ^ nat (- e) else m * 2 ^ nat e)"
| "integer_value Infinity = 0"
| "integer_value NotANumber = 0"

definition held :: "nat \<Rightarrow> nat" where
  \<comment> \<open>the double nearest to a non-negative integer, ties going to the even significand:
      what \<open>JSON.parse\<close> makes of the integer in a response; below \<open>2 ^ 53\<close> it is
      the integer itself\<close>
  "held n = integer_value (round_ratio n 1)"

definition js_plus :: "nat \<Rightarrow> nat \<Rightarrow> nat" where
  \<comment> \<open>\<open>a + b\<close> on two doubles that hold non-negative integers: the exact sum, rounded
      to the nearest double\<close>
  "js_plus a b = held (a + b)"

subsection \<open>Rendering numbers as text\<close>

definition digit :: "nat \<Rightarrow> char" where
  "digit d = ''0123456789'' ! (d mod 10)"

fun show_nat :: "nat \<Rightarrow> string" where
  "show_nat n = (if n < 10 then [digit n] else show_nat (n div 10) @ [digit (n mod 10)])"

declare show_nat.simps [simp del]

definition two_decimals :: "nat \<Rightarrow> string" where
  \<comment> \<open>the decimal text of \<open>n / 100\<close> with exactly two fraction digits\<close>
  "two_decimals n = show_nat (n div 100) @ ''.'' @ [digit (n div 10), digit n]"

text \<open>
  \<open>x.toFixed(2)\<close> takes the integer \<open>n\<close> with \<open>n / 100\<close> nearest to \<open>x\<close>, the
  larger one of two equally near, and writes it with two fraction digits. From
  \<open>10 ^ 21\<close> on it returns \<open>String(x)\<close> instead, which is in exponent notation
  there; the model says so and does not spell those digits out.
\<close>

datatype rendered = Digits string | ExponentNotation number

fun toFixed2 :: "number \<Rightarrow> rendered" where
  "toFixed2 (Finite m e) =
     (if (if e < 0 then 10 ^ 21 * 2 ^ nat (- e) \<le> m else 10 ^ 21 \<le> m * 2 ^ nat e)
      then ExponentNotation (Finite m e)
      else Digits (two_decimals
             (if e < 0 then (200 * m + 2 ^ nat (- e)) div (2 * 2 ^ nat (- e))
              else 100 * m * 2 ^ nat e)))"
| "toFixed2 Infinity = Digits ''Infinity''"
| "toFixed2 NotANumber = Digits ''NaN''"

definition round_half_up :: "rat \<Rightarrow> nat" where
  \<comment> \<open>hundredths of \<open>x\<close>, rounded half away from zero (\<open>x\<close> is never negative here)\<close>
  "round_half_up x = nat \<lfloor>x * 100 + 1 / 2\<rfloor>"

section \<open>The distribution chart\<close>

text \<open>
  The distribution object, as the REST collaborator sent it or as the dashboard created
  it. It has the three counts and may have further properties (\<open>extra\<close>), each a
  non-negative integer: the record keeps the integers as the response wrote them. A
  property holds a double, so every read goes through \<open>held\<close>. \<open>own_keys\<close> lists the
  names of all own properties in the order in which \<open>Object.keys\<close> enumerates them:
  integer-like names first, then the others in the order the properties were created,
  which is the order the server wrote them in. \<open>well_formed\<close> says that \<open>own_keys\<close>
  names exactly the properties the object has, each of them once. An object that lacks
  one of the three counts, or has a property that is not a non-negative integer, is
  outside the model.
\<close>

record sentiment_distribution =
  positive :: nat
  negative :: nat
  neutral :: nat
  extra :: "(string \<times> nat) list"
  own_keys :: "string list"

definition well_formed :: "sentiment_distribution \<Rightarrow> bool" where
  "well_formed data =
     (distinct (own_keys data) \<and>
      distinct (map fst (extra data)) \<and>
      fst ` set (extra data) \<inter> {''positive'', ''negative'', ''neutral''} = {} \<and>
      set (own_keys data) = {''positive'', ''negative'', ''neutral''} \<union> fst ` set (extra data))"

definition Object_keys :: "sentiment_distribution \<Rightarrow> string list" where
  \<comment> \<open>\<open>Object.keys(data)\<close>\<close>
  "Object_keys data = own_keys data"

definition field :: "sentiment_distribution \<Rightarrow> string \<Rightarrow> nat" where
  \<comment> \<open>\<open>data[k]\<close>; a name the object does not have reads \<open>undefined\<close>, which is not
      greater than 0 and so never reaches a slice: it counts as 0 here\<close>
  "field data k =
     held (if k = ''positive'' then positive data
           else if k = ''negative'' then negative data
           else if k = ''neutral'' then neutral data
           else (case map_of (extra data) k of Some v \<Rightarrow> v | None \<Rightarrow> 0))"

definition chart_total :: "sentiment_distribution \<Rightarrow> nat" where
  \<comment> \<open>\<open>data.positive + data.negative + data.neutral\<close>, added as doubles from the left\<close>
  "chart_total data =
     js_plus (js_plus (field data ''positive'') (field data ''negative''))
             (field data ''neutral'')"

record slice =
  name :: string
  val :: nat
  percentage :: rendered

datatype view = NoData | PieChart "slice list"

definition DistributionChart :: "sentiment_distribution \<Rightarrow> view" where
  "DistributionChart data =
     (if chart_total data = 0 then NoData
      else PieChart
        (map (\<lambda>k. \<lparr>name = k, val = field data k,
                    percentage = toFixed2 (js_mul (js_div (field data k) (chart_total data)) 100)\<rparr>)
             (filter (\<lambda>k. 0 < field data k) (Object_keys data))))"

section \<open>Posts and the hourly trend\<close>

record sentiment_result =
  label :: string

record post =
  post_id :: string
  content :: string
  created_at :: string
  sentiment :: sentiment_result

text \<open>
  A bucket is a JavaScript object: its own properties in creation order, each holding a
  counter. \<open>None\<close> is the counter value \<open>NaN\<close>, which \<open>++\<close> produces on a property
  that does not exist yet and keeps from then on. Counters stay far below \<open>2 ^ 53\<close>,
  where \<open>++\<close> is exact, so they are natural numbers. A label that names an accessor
  of \<open>Object.prototype\<close> (\<open>__proto__\<close>) is outside the model.
\<close>

type_synonym bucket = "(string \<times> nat option) list"

definition new_bucket :: bucket where
  "new_bucket = [(''positive'', Some 0), (''negative'', Some 0), (''neutral'', Some 0)]"

definition increment :: "string \<Rightarrow> bucket \<Rightarrow> bucket" where
  \<comment> \<open>\<open>b[l]++\<close>\<close>
  "increment l b =
     (case map_of b l of
        None \<Rightarrow> b @ [(l, None)]
      | Some v \<Rightarrow> AList.update l (map_option Suc v) b)"

text \<open>
  The \<open>buckets\<close> object is keyed by the result of \<open>getHours()\<close>: \<open>Some h\<close> for an
  hour, \<open>None\<close> for the \<open>NaN\<close> of a date that could not be parsed. The list keeps the
  properties in creation order. What \<open>new Date(s).getHours()\<close> returns depends on the
  browser's date parser and time zone, so it is a parameter \<open>getHours\<close> of the model.
\<close>

type_synonym buckets = "(nat option \<times> bucket) list"

definition ensure_bucket :: "nat option \<Rightarrow> buckets \<Rightarrow> buckets" where
  \<comment> \<open>\<open>buckets[hour] = buckets[hour] || { positive: 0, negative: 0, neutral: 0 }\<close>\<close>
  "ensure_bucket hour bs =
     (case map_of bs hour of None \<Rightarrow> bs @ [(hour, new_bucket)] | Some b \<Rightarrow> bs)"

definition count_post :: "(string \<Rightarrow> nat option) \<Rightarrow> post \<Rightarrow> buckets \<Rightarrow> buckets" where
  \<comment> \<open>the body of the \<open>forEach\<close> callback\<close>
  "count_post getHours p bs =
     (let hour = getHours (created_at p)
      in AList.map_entry hour (increment (label (sentiment p))) (ensure_bucket hour bs))"

definition fill_buckets :: "(string \<Rightarrow> nat option) \<Rightarrow> post list \<Rightarrow> buckets" where
  "fill_buckets getHours ps = fold (count_post getHours) ps []"

definition bucket_keys :: "buckets \<Rightarrow> nat option list" where
  \<comment> \<open>\<open>Object.keys(buckets)\<close>: the integer keys in ascending order, then the other
      keys (here only \<open>NaN\<close>) in creation order\<close>
  "bucket_keys bs =
     map Some (sort (List.map_filter id (map fst bs))) @ filter (\<lambda>k. k = None) (map fst bs)"

definition key_text :: "nat option \<Rightarrow> string" where
  "key_text h = (case h of Some n \<Rightarrow> show_nat n | None \<Rightarrow> ''NaN'')"

datatype jsval = Str string | Num "nat option"

type_synonym trend_point = "(string \<times> jsval) list"

definition spread :: "bucket \<Rightarrow> trend_point \<Rightarrow> trend_point" where
  \<comment> \<open>\<open>{ ...obj, ...b }\<close>: each property of \<open>b\<close> in turn replaces or extends \<open>obj\<close>\<close>
  "spread b obj = fold (\<lambda>(k, v). AList.update k (Num v)) b obj"

definition trend_point :: "buckets \<Rightarrow> nat option \<Rightarrow> trend_point" where
  \<comment> \<open>\<open>{ timestamp: `Hour ${h}`, ...buckets[h] }\<close>\<close>
  "trend_point bs h =
     spread (case map_of bs h of Some b \<Rightarrow> b | None \<Rightarrow> [])
            [(''timestamp'', Str (''Hour '' @ key_text h))]"

definition trendData :: "(string \<Rightarrow> nat option) \<Rightarrow> post list \<Rightarrow> trend_point list" where
  "trendData getHours ps =
     (let bs = fill_buckets getHours ps in map (trend_point bs) (bucket_keys bs))"

section \<open>The REST wrappers and the push channel\<close>

datatype error = NetworkError | SyntaxError | TypeError

text \<open>
  What \<open>fetch\<close> settles with: a rejection when no response arrives, otherwise a response
  with its HTTP status and its body. The body is given as \<open>res.json()\<close> decodes it,
  \<open>None\<close> when it is not JSON text. A decoded body is an object whose property
  (\<open>distribution\<close> or \<open>posts\<close>) may be missing, as in the error bodies of the API.
\<close>

datatype 'a settled = Rejected | Response nat "'a option"

record distribution_body =
  body_distribution :: "sentiment_distribution option"

record posts_body =
  body_posts :: "post list option"

fun fetchDistribution :: "distribution_body settled \<Rightarrow> error + distribution_body" where
  "fetchDistribution Rejected = Inl NetworkError"
| "fetchDistribution (Response code None) = Inl SyntaxError"
| "fetchDistribution (Response code (Some d)) = Inr d"

fun fetchPosts :: "posts_body settled \<Rightarrow> error + posts_body" where
  "fetchPosts Rejected = Inl NetworkError"
| "fetchPosts (Response code None) = Inl SyntaxError"
| "fetchPosts (Response code (Some d)) = Inr d"

section \<open>The dashboard state\<close>

datatype connection = Connecting | Connected | Disconnected

record dashboard =
  distribution :: "sentiment_distribution option"
  posts :: "post list option"
  trend :: "trend_point list"
  status :: connection
  lastUpdate :: string

definition initial :: dashboard where
  "initial =
     \<lparr>distribution = Some \<lparr>positive = 0, negative = 0, neutral = 0, extra = [],
                             own_keys = [''positive'', ''negative'', ''neutral'']\<rparr>,
      posts = Some [], trend = [], status = Connecting, lastUpdate = ''--''\<rparr>"

text \<open>
  The five \<open>useState\<close> cells of the component. A stored distribution or post list of
  \<open>None\<close> is the value \<open>undefined\<close>, which a setter stores like any other.

  Every callback takes the state and returns the state it leaves, together with the error
  it threw, if any. A state setter that ran before the throw has taken effect; an error
  that leaves a callback is not caught anywhere in the component.
\<close>

definition distribution_settled ::
  "distribution_body settled \<Rightarrow> dashboard \<Rightarrow> dashboard \<times> error option" where
  \<comment> \<open>\<open>fetchDistribution().then(d => setDistribution(d.distribution))\<close>\<close>
  "distribution_settled r s =
     (case fetchDistribution r of
        Inl e \<Rightarrow> (s, Some e)
      | Inr d \<Rightarrow> (s\<lparr>distribution := body_distribution d\<rparr>, None))"

definition posts_settled ::
  "(string \<Rightarrow> nat option) \<Rightarrow> posts_body settled \<Rightarrow> dashboard \<Rightarrow> dashboard \<times> error option" where
  \<comment> \<open>\<open>fetchPosts(20, 0).then(d => { setPosts(d.posts); ...; setTrend(trendData) })\<close>\<close>
  "posts_settled getHours r s =
     (case fetchPosts r of
        Inl e \<Rightarrow> (s, Some e)
      | Inr d \<Rightarrow>
          (case body_posts d of
             None \<Rightarrow> (s\<lparr>posts := None\<rparr>, Some TypeError)
           | Some ps \<Rightarrow> (s\<lparr>posts := Some ps, trend := trendData getHours ps\<rparr>, None)))"

definition onMessage :: "'j \<Rightarrow> string \<Rightarrow> dashboard \<Rightarrow> dashboard" where
  \<comment> \<open>the message callback; \<open>now\<close> is \<open>new Date().toLocaleTimeString()\<close> at the call\<close>
  "onMessage msg now s = s\<lparr>status := Connected, lastUpdate := now\<rparr>"

definition onError :: "dashboard \<Rightarrow> dashboard" where
  "onError s = s\<lparr>status := Disconnected\<rparr>"

definition onClose :: "dashboard \<Rightarrow> dashboard" where
  "onClose s = s\<lparr>status := Disconnected\<rparr>"

definition ws_onmessage ::
  "(string \<Rightarrow> 'j option) \<Rightarrow> string \<Rightarrow> string \<Rightarrow> dashboard \<Rightarrow> dashboard \<times> error option" where
  \<comment> \<open>\<open>ws.onmessage = (e) => onMessage(JSON.parse(e.data))\<close>; \<open>parse\<close> is \<open>JSON.parse\<close>,
      \<open>None\<close> where it throws\<close>
  "ws_onmessage parse data now s =
     (case parse data of
        None \<Rightarrow> (s, Some SyntaxError)
      | Some msg \<Rightarrow> (onMessage msg now s, None))"

datatype event =
    DistributionSettled "distribution_body settled"
  | PostsSettled "posts_body settled"
  | ChannelMessage string string
  | ChannelError
  | ChannelClose

fun dispatch ::
  "(string \<Rightarrow> nat option) \<Rightarrow> (string \<Rightarrow> 'j option) \<Rightarrow> event \<Rightarrow> dashboard
     \<Rightarrow> dashboard \<times> error option" where
  "dispatch getHours parse (DistributionSettled r) s = distribution_settled r s"
| "dispatch getHours parse (PostsSettled r) s = posts_settled getHours r s"
| "dispatch getHours parse (ChannelMessage data now) s = ws_onmessage parse data now s"
| "dispatch getHours parse ChannelError s = (onError s, None)"
| "dispatch getHours parse ChannelClose s = (onClose s, None)"

definition run ::
  "(string \<Rightarrow> nat option) \<Rightarrow> (string \<Rightarrow> 'j option) \<Rightarrow> event list \<Rightarrow> dashboard \<Rightarrow> dashboard" where
  \<comment> \<open>the event loop: the callbacks run one after the other, each to completion\<close>
  "run getHours parse evs s = fold (\<lambda>ev t. fst (dispatch getHours parse ev t)) evs s"

fun is_channel :: "event \<Rightarrow> bool" where
  "is_channel (ChannelMessage data now) = True"
| "is_channel ChannelError = True"
| "is_channel ChannelClose = True"
| "is_channel ev = False"

fun parsed_message :: "(string \<Rightarrow> 'j option) \<Rightarrow> event \<Rightarrow> bool" where
  \<comment> \<open>a channel message whose data \<open>JSON.parse\<close> accepts\<close>
  "parsed_message parse (ChannelMessage data now) = (parse data \<noteq> None)"
| "parsed_message parse ev = False"

section \<open>What the properties speak about\<close>

text \<open>
  The definitions of this section are not code of the dashboard. They name what the
  properties below observe: how many posts of an hour carry a label, the sum of all
  counters of a trend, and the concrete inputs of the worked examples.
\<close>

definition tie :: "nat \<Rightarrow> nat \<Rightarrow> bool" where
  \<comment> \<open>\<open>100 * c / t\<close> lies exactly halfway between two neighbouring hundredths\<close>
  "tie c t = ((20000 * c + t) mod (2 * t) = 0)"

definition tally :: "(string \<Rightarrow> nat option) \<Rightarrow> post list \<Rightarrow> nat option \<Rightarrow> string \<Rightarrow> nat" where
  \<comment> \<open>the number of posts whose hour key is \<open>h\<close> and whose label is \<open>l\<close>\<close>
  "tally getHours ps h l =
     length (filter (\<lambda>p. getHours (created_at p) = h \<and> label (sentiment p) = l) ps)"

definition known_label :: "post \<Rightarrow> bool" where
  "known_label p = (label (sentiment p) \<in> {''positive'', ''negative'', ''neutral''})"

definition counted :: "nat \<Rightarrow> nat \<Rightarrow> nat \<Rightarrow> bucket" where
  "counted a b c = [(''positive'', Some a), (''negative'', Some b), (''neutral'', Some c)]"

definition bucket_at :: "buckets \<Rightarrow> nat option \<Rightarrow> bucket" where
  \<comment> \<open>\<open>buckets[h]\<close>, read as a fresh bucket where the key has none yet\<close>
  "bucket_at bs h = (case map_of bs h of None \<Rightarrow> new_bucket | Some b \<Rightarrow> b)"

definition point :: "nat option \<Rightarrow> nat \<Rightarrow> nat \<Rightarrow> nat \<Rightarrow> trend_point" where
  "point h a b c =
     [(''timestamp'', Str (''Hour '' @ key_text h)), (''positive'', Num (Some a)),
      (''negative'', Num (Some b)), (''neutral'', Num (Some c))]"

definition js_add :: "nat option \<Rightarrow> nat option \<Rightarrow> nat option" where
  \<comment> \<open>\<open>x + y\<close> on counters: \<open>NaN\<close> if either is \<open>NaN\<close>\<close>
  "js_add x y = (case (x, y) of (Some a, Some b) \<Rightarrow> Some (a + b) | _ \<Rightarrow> None)"

definition count_of :: "trend_point \<Rightarrow> string \<Rightarrow> nat option" where
  \<comment> \<open>the counter a trend point holds under the key \<open>k\<close>, \<open>NaN\<close> if it holds none\<close>
  "count_of e k = (case map_of e k of Some (Num n) \<Rightarrow> n | _ \<Rightarrow> None)"

definition total_counts :: "trend_point list \<Rightarrow> nat option" where
  \<comment> \<open>the sum, over all trend points, of the three label counters\<close>
  "total_counts t =
     fold (\<lambda>e acc. js_add acc (js_add (js_add (count_of e ''positive'') (count_of e ''negative''))
                                     (count_of e ''neutral'')))
          t (Some 0)"

text \<open>
  The inputs of the examples. \<open>example_hours\<close> gives the hour that \<open>getHours()\<close> returns
  for three local date-times and \<open>NaN\<close> for every other text; \<open>example_parse\<close> stands
  for \<open>JSON.parse\<close> on the two message texts the examples send, of which it accepts
  \<open>{}\<close> and rejects the other, as \<open>JSON.parse\<close> does.
\<close>

definition example_hours :: "string \<Rightarrow> nat option" where
  "example_hours s =
     (if s = ''2024-05-01T10:05:00'' then Some 10
      else if s = ''2024-05-01T10:40:00'' then Some 10
      else if s = ''2024-05-01T14:20:00'' then Some 14
      else None)"

definition example_posts :: "post list" where
  "example_posts =
     [\<lparr>post_id = ''1'', content = ''great'', created_at = ''2024-05-01T10:05:00'',
       sentiment = \<lparr>label = ''positive''\<rparr>\<rparr>,
      \<lparr>post_id = ''2'', content = ''awful'', created_at = ''2024-05-01T10:40:00'',
       sentiment = \<lparr>label = ''negative''\<rparr>\<rparr>,
      \<lparr>post_id = ''3'', content = ''fine'', created_at = ''2024-05-01T14:20:00'',
       sentiment = \<lparr>label = ''neutral''\<rparr>\<rparr>]"

definition example_parse :: "string \<Rightarrow> unit option" where
  "example_parse data = (if data = ''{}'' then Some () else None)"

section \<open>Properties of the number model\<close>

lemma round_ratio_Finite: "\<exists>m e. round_ratio p q = Finite m e"
  by (simp add: round_ratio_def Let_def)

lemma js_div_Finite: "t \<noteq> 0 \<Longrightarrow> \<exists>m e. js_div c t = Finite m e"
  by (simp add: js_div_def round_ratio_Finite)

lemma js_mul_Finite: "\<exists>m' e'. js_mul (Finite m e) k = Finite m' e'"
  by (simp add: round_ratio_Finite)

lemma percentage_Finite:
  assumes "t \<noteq> 0"
  shows "\<exists>m e. js_mul (js_div c t) 100 = Finite m e"
proof -
  obtain m e where "js_div c t = Finite m e"
    using js_div_Finite [OF assms] by blast
  then show ?thesis
    using js_mul_Finite [of m e 100] by simp
qed

lemma floor_quotient_nat: "nat \<lfloor>(of_nat a :: rat) / of_nat b\<rfloor> = a div b"
  by (simp add: floor_divide_of_nat_eq)

text \<open>
  \<open>toFixed(2)\<close> rounds the value the double really holds half away from zero; it knows
  nothing of the quotient the double came from.
\<close>

lemma toFixed2_value:
  assumes "value_of (Finite m e) < 10 ^ 21"
  shows "toFixed2 (Finite m e) = Digits (two_decimals (round_half_up (value_of (Finite m e))))"
proof (cases "e < 0")
  case True
  define k where "k = nat (- e)"
  have "(of_nat m :: rat) < of_nat (10 ^ 21 * 2 ^ k)"
    using assms True by (simp add: pow2_def k_def field_simps)
  then have small: "m < 10 ^ 21 * 2 ^ k" by (simp only: of_nat_less_iff)
  have "value_of (Finite m e) * 100 + 1 / 2 =
          (of_nat (200 * m + 2 ^ k) :: rat) / of_nat (2 * 2 ^ k)"
    using True by (simp add: pow2_def k_def field_simps)
  then have "round_half_up (value_of (Finite m e)) = (200 * m + 2 ^ k) div (2 * 2 ^ k)"
    unfolding round_half_up_def by (simp only: floor_quotient_nat)
  then show ?thesis using True small by (simp add: k_def)
next
  case False
  have "(of_nat (m * 2 ^ nat e) :: rat) < of_nat (10 ^ 21)"
    using assms False by (simp add: pow2_def)
  then have small: "m * 2 ^ nat e < 10 ^ 21" by (simp only: of_nat_less_iff)
  have "value_of (Finite m e) * 100 + 1 / 2 =
          (of_nat (2 * (100 * m * 2 ^ nat e) + 1) :: rat) / of_nat 2"
    using False by (simp add: pow2_def field_simps)
  then have "round_half_up (value_of (Finite m e)) = (2 * (100 * m * 2 ^ nat e) + 1) div 2"
    unfolding round_half_up_def by (simp only: floor_quotient_nat)
  then show ?thesis using False small by (simp add: mult.assoc)
qed

subsection \<open>The doubles of the worked examples\<close>

lemma js_div_3_4: "js_div 3 4 = Finite 6755399441055744 (- 53)"
  by (simp add: js_div_def round_ratio_def bit_length.simps Let_def)

lemma js_div_1_4: "js_div 1 4 = Finite 4503599627370496 (- 54)"
  by (simp add: js_div_def round_ratio_def bit_length.simps Let_def)

lemma js_div_Suc_4: "js_div (Suc 0) 4 = Finite 4503599627370496 (- 54)"
  using js_div_1_4 by simp

lemma js_mul_75: "js_mul (Finite 6755399441055744 (- 53)) 100 = Finite 5277655813324800 (- 46)"
  by (simp add: round_ratio_def bit_length.simps Let_def)

lemma js_mul_25: "js_mul (Finite 4503599627370496 (- 54)) 100 = Finite 7036874417766400 (- 48)"
  by (simp add: round_ratio_def bit_length.simps Let_def)

lemma toFixed2_75: "toFixed2 (Finite 5277655813324800 (- 46)) = Digits ''75.00''"
  by (simp add: two_decimals_def show_nat.simps digit_def)

lemma toFixed2_25: "toFixed2 (Finite 7036874417766400 (- 48)) = Digits ''25.00''"
  by (simp add: two_decimals_def show_nat.simps digit_def)

text \<open>
  The double arithmetic is not the exact arithmetic. 23 of 160 posts are exactly 14.375
  per cent, which rounds half away from zero to 14.38; the double \<open>(23 / 160) * 100\<close>
  lies just below 14.375 and is rendered as 14.37.
\<close>

lemma js_div_23_160: "js_div 23 160 = Finite 5179139571476070 (- 55)"
  by (simp add: js_div_def round_ratio_def bit_length.simps Let_def)

lemma js_mul_14375:
  "js_mul (Finite 5179139571476070 (- 55)) 100 = Finite 8092405580431359 (- 49)"
  by (simp add: round_ratio_def bit_length.simps Let_def)

lemma toFixed2_1437: "toFixed2 (Finite 8092405580431359 (- 49)) = Digits ''14.37''"
  by (simp add: two_decimals_def show_nat.simps digit_def)

lemma percentage_23_of_160:
  "toFixed2 (js_mul (js_div 23 160) 100) = Digits ''14.37'' \<and>
   two_decimals (round_half_up (100 * 23 / 160)) = ''14.38''"
proof
  show "toFixed2 (js_mul (js_div 23 160) 100) = Digits ''14.37''"
    by (simp only: js_div_23_160 js_mul_14375 toFixed2_1437)
  have "round_half_up (100 * 23 / 160) = 1438"
    by (simp add: round_half_up_def)
  then show "two_decimals (round_half_up (100 * 23 / 160)) = ''14.38''"
    by (simp add: two_decimals_def show_nat.simps digit_def)
qed

subsection \<open>The error of one rounding\<close>

text \<open>
  \<open>round_ratio\<close> returns a number within half a unit in the last place of the exact
  quotient, so within a relative error of \<open>2 ^ - 53\<close>.
\<close>

lemma bit_length_pos: "0 < n \<Longrightarrow> 0 < bit_length n"
  by (subst bit_length.simps) simp

lemma bit_length_bounds:
  "0 < n \<Longrightarrow> 2 ^ (bit_length n - 1) \<le> n \<and> n < 2 ^ bit_length n"
proof (induction n rule: bit_length.induct)
  case (1 n)
  show ?case
  proof (cases "n div 2 = 0")
    case True
    with "1.prems" have "n = 1" by (cases n) auto
    then show ?thesis by (simp add: bit_length.simps)
  next
    case False
    then have pos: "0 < n div 2" by simp
    from "1.IH" [OF _ pos] "1.prems"
    have IH: "2 ^ (bit_length (n div 2) - 1) \<le> n div 2" "n div 2 < 2 ^ bit_length (n div 2)"
      by auto
    have bl: "bit_length n = Suc (bit_length (n div 2))"
      using "1.prems" by (subst bit_length.simps) simp
    obtain b where b: "bit_length (n div 2) = Suc b"
      using bit_length_pos [OF pos] by (cases "bit_length (n div 2)") auto
    have "2 ^ Suc b \<le> 2 * (n div 2)" using IH(1) b by simp
    also have "\<dots> \<le> n" by simp
    finally have lo: "2 ^ (bit_length n - 1) \<le> n" by (simp add: bl b)
    have "n div 2 + 1 \<le> 2 ^ Suc b" using IH(2) b by simp
    then have "2 * (n div 2) + 2 \<le> 2 ^ Suc (Suc b)" by simp
    moreover have "n < 2 * (n div 2) + 2" by presburger
    ultimately have "n < 2 ^ bit_length n" by (simp add: bl b)
    with lo show ?thesis by simp
  qed
qed

lemma pow2_power_int: "pow2 k = power_int 2 k"
  by (simp add: pow2_def power_int_def inverse_eq_divide power_divide)

lemma pow2_pos: "0 < pow2 k"
  by (simp add: pow2_def)

lemma pow2_add: "pow2 (a + b) = pow2 a * pow2 b"
  by (simp add: pow2_power_int power_int_add)

lemma pow2_diff: "pow2 (a - b) = pow2 a / pow2 b"
  by (simp add: pow2_power_int power_int_diff)

lemma pow2_nat: "pow2 (int n) = 2 ^ n"
  by (simp add: pow2_def)

lemma round_ratio_error:
  assumes "0 < p" and "0 < q"
  shows "\<exists>m e. round_ratio p q = Finite m e \<and>
           \<bar>of_nat m * pow2 e - of_nat p / of_nat q\<bar> \<le> pow2 e / 2 \<and>
           pow2 (e + 52) \<le> of_nat p / of_nat q"
proof -
  define x :: rat where "x = of_nat p / of_nat q"
  define d where "d = int (bit_length p) - int (bit_length q)"
  define below where
    "below = (if 0 \<le> d then q * 2 ^ nat d \<le> p else q \<le> p * 2 ^ nat (- d))"
  define e where "e = (if below then d else d - 1) - 52"
  define num where "num = (if e < 0 then p * 2 ^ nat (- e) else p)"
  define den where "den = (if e < 0 then q else q * 2 ^ nat e)"
  define f where "f = num div den"
  define r where "r = num mod den"
  define m where "m = (if 2 * r < den then f
                       else if den < 2 * r then f + 1
                       else if even f then f else f + 1)"
  have "p \<noteq> 0" using assms(1) by simp
  then have rr: "round_ratio p q = Finite m e"
    unfolding m_def r_def f_def den_def num_def e_def below_def d_def round_ratio_def Let_def
    by (simp only: if_False)
  have qpos: "(0::rat) < of_nat q" using assms(2) by simp
  have below_iff: "below \<longleftrightarrow> pow2 d \<le> x"
  proof (cases "0 \<le> d")
    case True
    have "(q * 2 ^ nat d \<le> p) = ((of_nat (q * 2 ^ nat d) :: rat) \<le> of_nat p)"
      by (simp only: of_nat_le_iff)
    also have "\<dots> = (2 ^ nat d \<le> x)"
      using qpos by (simp add: x_def pos_le_divide_eq mult.commute)
    finally show ?thesis using True by (simp add: below_def pow2_def)
  next
    case False
    have "(q \<le> p * 2 ^ nat (- d)) = ((of_nat q :: rat) \<le> of_nat (p * 2 ^ nat (- d)))"
      by (simp only: of_nat_le_iff)
    also have "\<dots> = (1 / 2 ^ nat (- d) \<le> x)"
      using qpos by (simp add: x_def field_simps)
    finally show ?thesis using False by (simp add: below_def pow2_def)
  qed
  have low: "pow2 (e + 52) \<le> x"
  proof (cases below)
    case True
    then show ?thesis using below_iff by (simp add: e_def)
  next
    case False
    have bp: "2 ^ (bit_length p - 1) \<le> p" using bit_length_bounds [OF assms(1)] by simp
    have bq: "q < 2 ^ bit_length q" using bit_length_bounds [OF assms(2)] by simp
    have bp': "(2::rat) ^ (bit_length p - 1) \<le> of_nat p"
      using bp by (metis of_nat_le_iff of_nat_numeral of_nat_power)
    have bq': "(of_nat q :: rat) \<le> 2 ^ bit_length q"
      using bq by (metis less_imp_le of_nat_le_iff of_nat_numeral of_nat_power)
    have "d - 1 = int (bit_length p - 1) - int (bit_length q)"
      using bit_length_pos [OF assms(1)] by (simp add: d_def)
    then have "pow2 (d - 1) = 2 ^ (bit_length p - 1) / 2 ^ bit_length q"
      by (simp only: pow2_diff pow2_nat)
    also have "\<dots> \<le> x"
      unfolding x_def using bp' bq' qpos by (intro frac_le) simp_all
    finally show ?thesis using False by (simp add: e_def)
  qed
  have denpos: "0 < den" using assms(2) by (simp add: den_def)
  have quot: "(of_nat num :: rat) / of_nat den = x / pow2 e"
    by (simp add: num_def den_def x_def pow2_def)
  have split: "(of_nat num :: rat) = of_nat den * of_nat f + of_nat r"
    unfolding f_def r_def by (simp flip: of_nat_mult of_nat_add)
  have rlt: "r < den" using denpos by (simp add: r_def)
  define y :: rat where "y = of_nat num / of_nat den"
  have y: "y = of_nat f + of_nat r / of_nat den"
    using denpos by (simp add: y_def split field_simps)
  have frac_lt: "(of_nat r :: rat) / of_nat den < 1"
    using rlt denpos by simp
  have half: "\<bar>of_nat m - y\<bar> \<le> 1 / 2"
  proof -
    consider "2 * r < den" | "den < 2 * r" | "2 * r = den" by linarith
    then show ?thesis
    proof cases
      case 1
      then have "(of_nat (2 * r) :: rat) < of_nat den" by (simp only: of_nat_less_iff)
      then have "(of_nat r :: rat) / of_nat den < 1 / 2"
        using denpos by (simp add: field_simps)
      then show ?thesis using 1 by (simp add: m_def y)
    next
      case 2
      then have "(of_nat den :: rat) < of_nat (2 * r)" by (simp only: of_nat_less_iff)
      then have "1 / 2 < (of_nat r :: rat) / of_nat den"
        using denpos by (simp add: field_simps)
      then show ?thesis using 2 frac_lt by (simp add: m_def y)
    next
      case 3
      then have "(of_nat den :: rat) = of_nat (2 * r)" by simp
      then have "(of_nat r :: rat) / of_nat den = 1 / 2"
        using denpos by (simp add: field_simps)
      then show ?thesis using 3 by (simp add: m_def y)
    qed
  qed
  have "x = y * pow2 e"
    using pow2_pos [of e] by (simp add: y_def quot)
  then have "of_nat m * pow2 e - x = (of_nat m - y) * pow2 e"
    by (simp add: algebra_simps)
  then have "\<bar>of_nat m * pow2 e - x\<bar> = \<bar>of_nat m - y\<bar> * pow2 e"
    using pow2_pos [of e] by (simp add: abs_mult)
  also have "\<dots> \<le> 1 / 2 * pow2 e"
    using half pow2_pos [of e] by (intro mult_right_mono) simp_all
  finally have "\<bar>of_nat m * pow2 e - x\<bar> \<le> pow2 e / 2" by simp
  with rr low show ?thesis unfolding x_def by blast
qed

lemma round_ratio_rel:
  assumes "0 < q"
  shows "\<exists>m e. round_ratio p q = Finite m e \<and>
           \<bar>of_nat m * pow2 e - of_nat p / of_nat q\<bar> \<le> (of_nat p / of_nat q) / 2 ^ 53"
proof (cases "p = 0")
  case True
  then show ?thesis by (simp add: round_ratio_def)
next
  case False
  then have "0 < p" by simp
  from round_ratio_error [OF this assms] obtain m e
    where rr: "round_ratio p q = Finite m e"
      and err: "\<bar>of_nat m * pow2 e - of_nat p / of_nat q\<bar> \<le> pow2 e / 2"
      and low: "pow2 (e + 52) \<le> of_nat p / of_nat q"
    by blast
  have "pow2 52 = 2 ^ 52" by (simp add: pow2_def)
  then have "pow2 e / 2 = pow2 (e + 52) / 2 ^ 53"
    by (simp add: pow2_add)
  also have "\<dots> \<le> (of_nat p / of_nat q) / 2 ^ 53"
    using low by (simp add: divide_right_mono)
  finally have "pow2 e / 2 \<le> (of_nat p / of_nat q) / 2 ^ 53" .
  with rr err show ?thesis by (meson order_trans)
qed

lemma js_mul_rel:
  "\<exists>m' e'. js_mul (Finite m e) k = Finite m' e' \<and>
     \<bar>of_nat m' * pow2 e' - of_nat m * pow2 e * of_nat k\<bar>
       \<le> (of_nat m * pow2 e * of_nat k) / 2 ^ 53"
proof (cases "e < 0")
  case True
  have eq: "(of_nat (m * k) :: rat) / of_nat (2 ^ nat (- e)) = of_nat m * pow2 e * of_nat k"
    using True by (simp add: pow2_def)
  have mul: "js_mul (Finite m e) k = round_ratio (m * k) (2 ^ nat (- e))"
    using True by simp
  have "(0::nat) < 2 ^ nat (- e)" by simp
  from round_ratio_rel [OF this, of "m * k"] show ?thesis
    unfolding eq mul .
next
  case False
  have eq: "(of_nat (m * k * 2 ^ nat e) :: rat) / of_nat 1 = of_nat m * pow2 e * of_nat k"
    using False by (simp add: pow2_def)
  have mul: "js_mul (Finite m e) k = round_ratio (m * k * 2 ^ nat e) 1"
    using False by simp
  have "(0::nat) < 1" by simp
  from round_ratio_rel [OF this, of "m * k * 2 ^ nat e"] show ?thesis
    unfolding eq mul .
qed

subsection \<open>Percentages of counts up to \<open>2 ^ 37\<close>\<close>

text \<open>
  Two roundings lie between the exact percentage \<open>100 * c / t\<close> and the double that
  \<open>toFixed\<close> renders. For a count up to \<open>2 ^ 37\<close> their error is too small to carry
  the double across a rounding boundary of the hundredths, unless the exact percentage
  lies on such a boundary: then the double may fall on either side of it.
\<close>

lemma percentage_value_close:
  assumes "0 < t"
  shows "\<exists>m e. js_mul (js_div c t) 100 = Finite m e \<and>
           \<bar>of_nat m * pow2 e - 100 * of_nat c / of_nat t\<bar>
             \<le> (100 * of_nat c / of_nat t) * (3 / 2 ^ 53)"
proof -
  define u :: rat where "u = 1 / 2 ^ 53"
  define q :: rat where "q = of_nat c / of_nat t"
  have u: "0 < u" "u \<le> 1" by (simp_all add: u_def)
  have q0: "0 \<le> q" by (simp add: q_def)
  obtain m1 e1 where d: "js_div c t = Finite m1 e1"
    and e1: "\<bar>of_nat m1 * pow2 e1 - q\<bar> \<le> q * u"
    using round_ratio_rel [OF assms, of c] assms by (auto simp: js_div_def q_def u_def)
  define x1 :: rat where "x1 = of_nat m1 * pow2 e1"
  obtain m2 e2 where mul: "js_mul (Finite m1 e1) 100 = Finite m2 e2"
    and e2: "\<bar>of_nat m2 * pow2 e2 - x1 * 100\<bar> \<le> (x1 * 100) * u"
    using js_mul_rel [of m1 e1 100] by (auto simp: x1_def u_def)
  define x2 :: rat where "x2 = of_nat m2 * pow2 e2"
  have x1_le: "x1 \<le> q * (1 + u)"
    using e1 by (simp add: x1_def abs_le_iff algebra_simps)
  have x1_0: "0 \<le> x1" by (simp add: x1_def pow2_pos less_imp_le)
  have "x2 - 100 * q = (x2 - x1 * 100) + 100 * (x1 - q)"
    by (simp add: algebra_simps)
  then have "\<bar>x2 - 100 * q\<bar> \<le> \<bar>x2 - x1 * 100\<bar> + \<bar>100 * (x1 - q)\<bar>"
    by (metis abs_triangle_ineq)
  also have "\<dots> = \<bar>x2 - x1 * 100\<bar> + 100 * \<bar>x1 - q\<bar>"
    by (simp only: abs_mult abs_numeral)
  also have "\<dots> \<le> (x1 * 100) * u + 100 * (q * u)"
    using e1 e2 by (simp add: x1_def x2_def)
  also have "\<dots> \<le> (q * (1 + u) * 100) * u + 100 * (q * u)"
    using x1_le u by (simp add: mult_right_mono)
  also have "\<dots> = 100 * q * (u * (2 + u))"
    by (simp add: algebra_simps)
  also have "\<dots> \<le> 100 * q * (3 * u)"
  proof -
    have "u * (2 + u) \<le> 3 * u" using u by simp
    moreover have "0 \<le> 100 * q" using q0 by simp
    ultimately show ?thesis by (rule mult_left_mono)
  qed
  finally have "\<bar>x2 - 100 * q\<bar> \<le> 100 * q * (3 * u)" .
  then have "\<bar>of_nat m2 * pow2 e2 - 100 * of_nat c / of_nat t\<bar>
             \<le> (100 * of_nat c / of_nat t) * (3 / 2 ^ 53)"
    by (simp add: x2_def q_def u_def)
  with d mul show ?thesis by simp
qed

lemma percentage_rounding:
  assumes "0 < t" and "c \<le> 2 ^ 37"
  shows "(\<not> tie c t \<longrightarrow>
            toFixed2 (js_mul (js_div c t) 100) =
              Digits (two_decimals (round_half_up (100 * of_nat c / of_nat t)))) \<and>
         (tie c t \<longrightarrow>
            toFixed2 (js_mul (js_div c t) 100) =
              Digits (two_decimals (round_half_up (100 * of_nat c / of_nat t))) \<or>
            toFixed2 (js_mul (js_div c t) 100) =
              Digits (two_decimals (round_half_up (100 * of_nat c / of_nat t) - 1)))"
proof -
  obtain m e where fin: "js_mul (js_div c t) 100 = Finite m e"
    and close: "\<bar>of_nat m * pow2 e - 100 * of_nat c / of_nat t\<bar>
                  \<le> (100 * of_nat c / of_nat t) * (3 / 2 ^ 53)"
    using percentage_value_close [OF assms(1), of c] by blast
  define x :: rat where "x = 100 * of_nat c / of_nat t"
  define x' :: rat where "x' = of_nat m * pow2 e"
  define h :: rat where "h = 1 / (2 * of_nat t)"
  define n where "n = (20000 * c + t) div (2 * t)"
  define r where "r = (20000 * c + t) mod (2 * t)"
  have tpos: "(0::rat) < of_nat t" using assms(1) by simp
  have hpos: "0 < h" using tpos by (simp add: h_def)
  have "(of_nat c :: rat) \<le> of_nat (2 ^ 37)"
    using assms(2) by (simp only: of_nat_le_iff)
  then have c: "(of_nat c :: rat) \<le> 137438953472" by simp
  have "(1::rat) \<le> of_nat t" using assms(1) by simp
  then have "x \<le> 100 * of_nat c"
    using tpos by (simp add: x_def field_simps mult_left_mono)
  with c have x: "0 \<le> x" "x \<le> 13743895347200"
    by (simp_all add: x_def)
  have "x' \<le> x + x * (3 / 2 ^ 53)"
    using close by (simp add: x_def x'_def abs_le_iff)
  also have "\<dots> \<le> x + x * 1"
    using x(1) by (intro add_left_mono mult_left_mono) simp_all
  finally have "value_of (Finite m e) < 10 ^ 21"
    using x(2) by (simp add: x'_def)
  then have rendered:
    "toFixed2 (js_mul (js_div c t) 100) = Digits (two_decimals (round_half_up x'))"
    unfolding fin x'_def using toFixed2_value [of m e] by simp
  have "x' * 100 - x * 100 = 100 * (x' - x)"
    by (simp add: algebra_simps)
  then have "\<bar>x' * 100 - x * 100\<bar> = 100 * \<bar>x' - x\<bar>"
    by (simp only: abs_mult abs_numeral)
  also have "\<dots> \<le> 100 * (x * (3 / 2 ^ 53))"
    using close by (simp add: x_def x'_def)
  also have "\<dots> = of_nat c * (60000 / 2 ^ 53) * h"
    using tpos by (simp add: x_def h_def field_simps)
  also have "\<dots> \<le> 137438953472 * (60000 / 2 ^ 53) * h"
    using c hpos by (intro mult_right_mono) simp_all
  also have "\<dots> < 1 * h"
    using hpos by (intro mult_strict_right_mono) simp_all
  finally have near: "\<bar>x' * 100 - x * 100\<bar> < h" by simp
  have split: "(of_nat (20000 * c + t) :: rat) = of_nat (2 * t) * of_nat n + of_nat r"
    unfolding n_def r_def by (simp flip: of_nat_mult of_nat_add)
  have A: "x * 100 + 1 / 2 = of_nat n + of_nat r * h"
  proof -
    have "x * 100 + 1 / 2 = (of_nat (20000 * c + t) :: rat) / of_nat (2 * t)"
      using tpos by (simp add: x_def field_simps)
    also have "\<dots> = of_nat n + of_nat r * h"
      unfolding split using tpos by (simp add: h_def field_simps)
    finally show ?thesis .
  qed
  have exact: "round_half_up x = n"
  proof -
    have "x * 100 + 1 / 2 = (of_nat (20000 * c + t) :: rat) / of_nat (2 * t)"
      using tpos by (simp add: x_def field_simps)
    then show ?thesis
      unfolding round_half_up_def n_def by (simp only: floor_quotient_nat)
  qed
  have rlt: "r < 2 * t" using assms(1) by (simp add: r_def)
  then have "(of_nat (r + 1) :: rat) \<le> of_nat (2 * t)"
    by (simp only: of_nat_le_iff)
  then have rh: "of_nat r * h + h \<le> 1"
    using tpos by (simp add: h_def field_simps)
  have lo: "of_nat n + of_nat r * h - h < x' * 100 + 1 / 2"
    and hi: "x' * 100 + 1 / 2 < of_nat n + of_nat r * h + h"
    using near A by (simp_all add: abs_less_iff)
  show ?thesis
  proof (intro conjI impI)
    assume "\<not> tie c t"
    then have "1 \<le> r" by (simp add: tie_def r_def)
    then have "(1::rat) \<le> of_nat r" by simp
    then have "h \<le> of_nat r * h" using hpos by simp
    with lo have "of_int (int n) < x' * 100 + 1 / 2" by simp
    moreover from hi rh have "x' * 100 + 1 / 2 < of_int (int n) + 1" by simp
    ultimately have "\<lfloor>x' * 100 + 1 / 2\<rfloor> = int n"
      by (intro floor_unique) simp_all
    then have "round_half_up x' = n" by (simp add: round_half_up_def)
    with rendered exact show "toFixed2 (js_mul (js_div c t) 100) =
        Digits (two_decimals (round_half_up (100 * of_nat c / of_nat t)))"
      by (simp add: x_def)
  next
    assume "tie c t"
    then have r0: "r = 0" by (simp add: tie_def r_def)
    have h1: "h \<le> 1" using rh r0 by simp
    have "round_half_up x' = n \<or> round_half_up x' = n - 1"
    proof (cases "of_int (int n) \<le> x' * 100 + 1 / 2")
      case True
      moreover from hi r0 h1 have "x' * 100 + 1 / 2 < of_int (int n) + 1" by simp
      ultimately have "\<lfloor>x' * 100 + 1 / 2\<rfloor> = int n"
        by (intro floor_unique) simp_all
      then show ?thesis by (simp add: round_half_up_def)
    next
      case False
      then have up: "x' * 100 + 1 / 2 < of_int (int n - 1) + 1" by simp
      from lo r0 h1 have "of_int (int n - 1) \<le> x' * 100 + 1 / 2" by simp
      with up have "\<lfloor>x' * 100 + 1 / 2\<rfloor> = int n - 1"
        by (intro floor_unique) simp_all
      then show ?thesis by (simp add: round_half_up_def nat_diff_distrib')
    qed
    with rendered exact show "toFixed2 (js_mul (js_div c t) 100) =
          Digits (two_decimals (round_half_up (100 * of_nat c / of_nat t))) \<or>
        toFixed2 (js_mul (js_div c t) 100) =
          Digits (two_decimals (round_half_up (100 * of_nat c / of_nat t) - 1))"
      by (auto simp: x_def)
  qed
qed

lemma hundredths:
  assumes "0 < t"
  shows "round_half_up (100 * of_nat c / of_nat t) = (20000 * c + t) div (2 * t)"
proof -
  have "100 * of_nat c / of_nat t * 100 + 1 / 2 =
      (of_nat (20000 * c + t) :: rat) / of_nat (2 * t)"
    using assms by (simp add: field_simps)
  then show ?thesis
    unfolding round_half_up_def by (simp only: floor_quotient_nat)
qed

text \<open>
  Beyond the bound the double arithmetic can miss the exact rounding also where there is
  no tie: 431581045540 of 512353588817 posts are rendered as 84.23, and the exact
  percentage rounds to 84.24.
\<close>

lemma js_div_beyond: "js_div 431581045540 512353588817 = Finite 7587214292231075 (- 53)"
  by (simp add: js_div_def round_ratio_def bit_length.simps Let_def)

lemma js_mul_beyond:
  "js_mul (Finite 7587214292231075 (- 53)) 100 = Finite 5927511165805527 (- 46)"
  by (simp add: round_ratio_def bit_length.simps Let_def)

lemma toFixed2_beyond: "toFixed2 (Finite 5927511165805527 (- 46)) = Digits ''84.23''"
  by (simp add: two_decimals_def show_nat.simps digit_def)

lemma percentage_beyond_bound:
  "\<not> tie 431581045540 512353588817 \<and>
   toFixed2 (js_mul (js_div 431581045540 512353588817) 100) = Digits ''84.23'' \<and>
   two_decimals (round_half_up (100 * of_nat 431581045540 / of_nat 512353588817)) = ''84.24''"
proof (intro conjI)
  show "\<not> tie 431581045540 512353588817" by (simp add: tie_def)
  show "toFixed2 (js_mul (js_div 431581045540 512353588817) 100) = Digits ''84.23''"
    by (simp only: js_div_beyond js_mul_beyond toFixed2_beyond)
  have "round_half_up (100 * of_nat 431581045540 / of_nat 512353588817) = 8424"
    by (subst hundredths) simp_all
  then show "two_decimals (round_half_up (100 * of_nat 431581045540 / of_nat 512353588817))
      = ''84.24''"
    by (simp only:) (simp add: two_decimals_def show_nat.simps digit_def)
qed

subsection \<open>Sums of counts\<close>

text \<open>
  A sum below \<open>2 ^ 53\<close> is exact, and a rounded sum is zero only if the exact sum is.
  From \<open>2 ^ 53\<close> on a sum is rounded: \<open>2 ^ 48 + (2 ^ 53 - 2 ^ 48 + 1)\<close> is the double
  \<open>2 ^ 53\<close>.
\<close>

lemma bit_length_1: "bit_length 1 = 1"
  by (simp add: bit_length.simps)

lemma round_ratio_nat:
  assumes "0 < n"
  shows "\<exists>m. round_ratio n 1 = Finite m (int (bit_length n) - 53) \<and>
          (53 \<le> bit_length n \<longrightarrow> n div 2 ^ (bit_length n - 53) \<le> m)"
proof -
  define d where "d = int (bit_length n) - int (bit_length 1)"
  define below where
    "below = (if 0 \<le> d then 1 * 2 ^ nat d \<le> n else 1 \<le> n * 2 ^ nat (- d))"
  define e where "e = (if below then d else d - 1) - 52"
  define num where "num = (if e < 0 then n * 2 ^ nat (- e) else n)"
  define den :: nat where "den = (if e < 0 then 1 else 1 * 2 ^ nat e)"
  define f where "f = num div den"
  define r where "r = num mod den"
  define m where "m = (if 2 * r < den then f
                       else if den < 2 * r then f + 1
                       else if even f then f else f + 1)"
  have "n \<noteq> 0" using assms by simp
  then have rr: "round_ratio n 1 = Finite m e"
    unfolding m_def r_def f_def den_def num_def e_def below_def d_def round_ratio_def Let_def
    by (simp only: if_False)
  have d: "d = int (bit_length n) - 1" by (simp only: d_def bit_length_1 of_nat_1)
  have d0: "0 \<le> d" using bit_length_pos [OF assms] by (simp add: d)
  have "nat d = bit_length n - 1" by (simp add: d)
  then have below using bit_length_bounds [OF assms] d0 by (simp add: below_def)
  then have e: "e = int (bit_length n) - 53" by (simp add: e_def d)
  have fm: "f \<le> m" by (simp add: m_def)
  have "n div 2 ^ (bit_length n - 53) \<le> m" if "53 \<le> bit_length n"
  proof -
    have "nat e = bit_length n - 53" by (simp add: e)
    moreover have "\<not> e < 0" using that by (simp add: e)
    ultimately have "f = n div 2 ^ (bit_length n - 53)"
      by (simp add: f_def num_def den_def)
    with fm show ?thesis by simp
  qed
  with rr show ?thesis unfolding e by blast
qed

lemma held_small:
  assumes "n < 2 ^ 53"
  shows "held n = n"
proof (cases "n = 0")
  case True
  then show ?thesis by (simp add: held_def round_ratio_def)
next
  case False
  then have pos: "0 < n" by simp
  define d where "d = int (bit_length n) - int (bit_length 1)"
  define below where
    "below = (if 0 \<le> d then 1 * 2 ^ nat d \<le> n else 1 \<le> n * 2 ^ nat (- d))"
  define e where "e = (if below then d else d - 1) - 52"
  define num where "num = (if e < 0 then n * 2 ^ nat (- e) else n)"
  define den :: nat where "den = (if e < 0 then 1 else 1 * 2 ^ nat e)"
  define f where "f = num div den"
  define r where "r = num mod den"
  define m where "m = (if 2 * r < den then f
                       else if den < 2 * r then f + 1
                       else if even f then f else f + 1)"
  have rr: "round_ratio n 1 = Finite m e"
    using False
    unfolding m_def r_def f_def den_def num_def e_def below_def d_def round_ratio_def Let_def
    by (simp only: if_False)
  have d: "d = int (bit_length n) - 1" by (simp only: d_def bit_length_1 of_nat_1)
  have d0: "0 \<le> d" using bit_length_pos [OF pos] by (simp add: d)
  have "nat d = bit_length n - 1" by (simp add: d)
  then have below using bit_length_bounds [OF pos] d0 by (simp add: below_def)
  then have e: "e = int (bit_length n) - 53" by (simp add: e_def d)
  have "(2::nat) ^ (bit_length n - 1) < 2 ^ 53"
    using bit_length_bounds [OF pos] assms by simp
  then have "bit_length n - 1 < 53" by (simp only: power_strict_increasing_iff)
  then have e0: "e \<le> 0" by (simp add: e)
  have den: "den = 1" using e0 by (simp add: den_def)
  have m: "m = num" by (simp add: m_def r_def f_def den)
  show ?thesis
    unfolding held_def rr using e0 by (simp add: m num_def)
qed

lemma held_pos:
  assumes "0 < n"
  shows "0 < held n"
proof (cases "n < 2 ^ 53")
  case True
  then show ?thesis using assms by (simp only: held_small)
next
  case False
  define k where "k = bit_length n - 53"
  have "(2::nat) ^ 53 < 2 ^ bit_length n"
    using bit_length_bounds [OF assms] False by simp
  then have big: "53 < bit_length n" by (simp only: power_strict_increasing_iff)
  obtain m where rr: "round_ratio n 1 = Finite m (int (bit_length n) - 53)"
    and fm: "n div 2 ^ k \<le> m"
    using round_ratio_nat [OF assms] big unfolding k_def by auto
  have e: "int (bit_length n) - 53 = int k" using big by (simp add: k_def)
  have "k \<le> bit_length n - 1" by (simp add: k_def)
  then have "(2::nat) ^ k \<le> 2 ^ (bit_length n - 1)"
    by (simp only: power_increasing_iff one_less_numeral_iff semiring_norm)
  also have "\<dots> \<le> n" using bit_length_bounds [OF assms] by simp
  finally have "1 \<le> n div 2 ^ k"
    by (simp add: less_eq_div_iff_mult_less_eq)
  with fm have "1 \<le> m" by simp
  then show ?thesis unfolding held_def rr e by simp
qed

lemma held_zero: "(held n = 0) = (n = 0)"
proof (cases "n = 0")
  case True
  then show ?thesis by (simp add: held_small)
next
  case False
  then have "0 < n" by simp
  from held_pos [OF this] False show ?thesis by simp
qed

lemma js_plus_exact: "a + b < 2 ^ 53 \<Longrightarrow> js_plus a b = a + b"
  unfolding js_plus_def by (rule held_small)

lemma js_plus_zero: "(js_plus a b = 0) = (a + b = 0)"
  unfolding js_plus_def by (rule held_zero)

lemma sum_rounded:
  "js_plus (js_plus 281474976710656 8725724278030337) 0 = 9007199254740992"
  by (simp add: js_plus_def held_def round_ratio_def bit_length.simps Let_def)

section \<open>Properties of the distribution chart\<close>

lemma field_labels:
  "field d ''positive'' = held (positive d)"
  "field d ''negative'' = held (negative d)"
  "field d ''neutral'' = held (neutral d)"
  by (simp_all add: field_def)

lemma total_zero:
  "(chart_total d = 0) = (positive d + negative d + neutral d = 0)"
  by (simp add: chart_total_def js_plus_zero field_labels held_zero)

lemma total_exact:
  assumes "positive d + negative d + neutral d < 2 ^ 53"
  shows "chart_total d = positive d + negative d + neutral d"
proof -
  have "positive d < 2 ^ 53" "negative d < 2 ^ 53" "neutral d < 2 ^ 53"
    using assms by simp_all
  then have reads: "field d ''positive'' = positive d" "field d ''negative'' = negative d"
      "field d ''neutral'' = neutral d"
    by (simp_all add: field_labels held_small)
  have "positive d + negative d < 2 ^ 53" using assms by simp
  then have "js_plus (positive d) (negative d) = positive d + negative d"
    by (rule js_plus_exact)
  then show ?thesis
    unfolding chart_total_def reads using assms by (simp add: js_plus_exact)
qed

lemma DistributionChart_slices:
  assumes "positive d + negative d + neutral d \<noteq> 0"
  shows "DistributionChart d =
     PieChart (map (\<lambda>k. \<lparr>name = k, val = field d k,
         percentage = toFixed2 (js_mul (js_div (field d k) (chart_total d)) 100)\<rparr>)
       (filter (\<lambda>k. 0 < field d k) (Object_keys d)))"
  using assms by (simp add: DistributionChart_def total_zero)

lemma own_key_slice:
  assumes "well_formed d" and "l \<in> {''positive'', ''negative'', ''neutral''}"
  shows "(l \<in> set (filter (\<lambda>k. 0 < field d k) (Object_keys d))) = (0 < field d l)"
  using assms by (auto simp: well_formed_def Object_keys_def)

lemma two_decimals_examples:
  "two_decimals 6250 = ''62.50''" "two_decimals 1438 = ''14.38''"
  "two_decimals 1437 = ''14.37''"
  "two_decimals 5844 = ''58.44''" "two_decimals 1558 = ''15.58''"
  "two_decimals 2597 = ''25.97''"
  by (simp_all add: two_decimals_def show_nat.simps digit_def)

lemma total_3_1_0:
  "chart_total \<lparr>positive = 3, negative = 1, neutral = 0, extra = [],
          own_keys = [''positive'', ''negative'', ''neutral'']\<rparr> = 4"
  by (simp add: total_exact)

lemma total_3_Suc_0:
  "chart_total \<lparr>positive = 3, negative = Suc 0, neutral = 0, extra = [],
          own_keys = [''positive'', ''negative'', ''neutral'']\<rparr> = 4"
  using total_3_1_0 by simp

text \<open>
  Claim C1, as the specification states it, asks for a percentage for each of the three
  labels, also for a label whose count is 0. The chart filters those labels out before it
  computes anything: on the specification's own example, 3 positive, 1 negative and
  0 neutral posts, it reports two slices and nothing for \<open>neutral\<close>.
\<close>

theorem chart_omits_zero_count_label:
  "DistributionChart \<lparr>positive = 3, negative = 1, neutral = 0, extra = [],
                      own_keys = [''positive'', ''negative'', ''neutral'']\<rparr> =
     PieChart [\<lparr>name = ''positive'', val = 3, percentage = Digits ''75.00''\<rparr>,
               \<lparr>name = ''negative'', val = 1, percentage = Digits ''25.00''\<rparr>]"
  by (simp add: DistributionChart_def Object_keys_def field_def held_small total_3_Suc_0 js_div_3_4
        js_div_Suc_4 js_mul_75 js_mul_25 toFixed2_75 toFixed2_25
        del: js_mul.simps toFixed2.simps)

text \<open>
  Claim C1, amended. For every distribution object whose three counts have a non-zero
  sum, the chart reports one slice for each own property whose count is greater than 0,
  in the order in which \<open>Object.keys\<close> enumerates the properties, and none for a
  property whose count is 0: each of the three labels has a slice exactly if its count is
  greater than 0. A slice carries the count and, as its percentage, the two-decimal
  \<open>toFixed\<close> text of the double \<open>(count / total) * 100\<close>. When the sum of the counts
  is below \<open>2 ^ 53\<close> and the count is at most \<open>2 ^ 37\<close>, that text is
  \<open>100 * count / total\<close> rounded to two decimal places half away from zero, unless
  \<open>100 * count / total\<close> lies exactly halfway between two hundredths; there it is
  that rounding or one hundredth less.
\<close>

theorem chart_reports_positive_counts:
  assumes "well_formed d"
    and "positive d + negative d + neutral d \<noteq> 0"
  shows "\<exists>ss. DistributionChart d = PieChart ss \<and>
     map name ss = filter (\<lambda>k. 0 < field d k) (Object_keys d) \<and>
     (\<forall>l \<in> {''positive'', ''negative'', ''neutral''}.
        (l \<in> name ` set ss) = (0 < field d l)) \<and>
     (\<forall>s \<in> set ss.
        val s = field d (name s) \<and> 0 < val s \<and>
        percentage s = toFixed2 (js_mul (js_div (val s) (chart_total d)) 100) \<and>
        (positive d + negative d + neutral d < 2 ^ 53 \<and>
         val s \<le> 2 ^ 37 \<longrightarrow>
           (\<not> tie (val s) (positive d + negative d + neutral d) \<longrightarrow>
              percentage s =
                Digits (two_decimals (round_half_up (100 * of_nat (val s) /
                  of_nat (positive d + negative d + neutral d))))) \<and>
           (tie (val s) (positive d + negative d + neutral d) \<longrightarrow>
              percentage s =
                Digits (two_decimals (round_half_up (100 * of_nat (val s) /
                  of_nat (positive d + negative d + neutral d)))) \<or>
              percentage s =
                Digits (two_decimals (round_half_up (100 * of_nat (val s) /
                  of_nat (positive d + negative d + neutral d)) - 1)))))"
proof -
  let ?S = "positive d + negative d + neutral d"
  let ?pct = "\<lambda>c. toFixed2 (js_mul (js_div c (chart_total d)) 100)"
  let ?ks = "filter (\<lambda>k. 0 < field d k) (Object_keys d)"
  let ?ss = "map (\<lambda>k. \<lparr>name = k, val = field d k, percentage = ?pct (field d k)\<rparr>) ?ks"
  have chart: "DistributionChart d = PieChart ?ss"
    by (rule DistributionChart_slices [OF assms(2)])
  have names: "map name ?ss = ?ks"
    by (simp add: comp_def)
  have labels: "\<forall>l \<in> {''positive'', ''negative'', ''neutral''}.
      (l \<in> name ` set ?ss) = (0 < field d l)"
  proof
    fix l assume l: "l \<in> {''positive'', ''negative'', ''neutral''}"
    have "name ` set ?ss = set (map name ?ss)" by (simp only: set_map)
    also have "\<dots> = set ?ks" by (simp only: names)
    finally show "(l \<in> name ` set ?ss) = (0 < field d l)"
      using own_key_slice [OF assms(1) l] by simp
  qed
  have each: "\<forall>s \<in> set ?ss.
        val s = field d (name s) \<and> 0 < val s \<and> percentage s = ?pct (val s) \<and>
        (?S < 2 ^ 53 \<and> val s \<le> 2 ^ 37 \<longrightarrow>
           (\<not> tie (val s) ?S \<longrightarrow>
              percentage s = Digits (two_decimals (round_half_up (100 * of_nat (val s) / of_nat ?S)))) \<and>
           (tie (val s) ?S \<longrightarrow>
              percentage s = Digits (two_decimals (round_half_up (100 * of_nat (val s) / of_nat ?S))) \<or>
              percentage s =
                Digits (two_decimals (round_half_up (100 * of_nat (val s) / of_nat ?S) - 1))))"
  proof
    fix s assume "s \<in> set ?ss"
    then obtain k where s: "s = \<lparr>name = k, val = field d k, percentage = ?pct (field d k)\<rparr>"
      and k: "0 < field d k"
      by auto
    have bounded: "(\<not> tie (field d k) ?S \<longrightarrow>
              ?pct (field d k) =
                Digits (two_decimals (round_half_up (100 * of_nat (field d k) / of_nat ?S)))) \<and>
           (tie (field d k) ?S \<longrightarrow>
              ?pct (field d k) =
                Digits (two_decimals (round_half_up (100 * of_nat (field d k) / of_nat ?S))) \<or>
              ?pct (field d k) =
                Digits (two_decimals (round_half_up (100 * of_nat (field d k) / of_nat ?S) - 1)))"
      if small: "?S < 2 ^ 53" and c: "field d k \<le> 2 ^ 37"
    proof -
      have t: "chart_total d = ?S" by (rule total_exact [OF small])
      have "0 < ?S" using assms(2) by simp
      from percentage_rounding [OF this c] show ?thesis unfolding t .
    qed
    show "val s = field d (name s) \<and> 0 < val s \<and> percentage s = ?pct (val s) \<and>
        (?S < 2 ^ 53 \<and> val s \<le> 2 ^ 37 \<longrightarrow>
           (\<not> tie (val s) ?S \<longrightarrow>
              percentage s = Digits (two_decimals (round_half_up (100 * of_nat (val s) / of_nat ?S)))) \<and>
           (tie (val s) ?S \<longrightarrow>
              percentage s = Digits (two_decimals (round_half_up (100 * of_nat (val s) / of_nat ?S))) \<or>
              percentage s =
                Digits (two_decimals (round_half_up (100 * of_nat (val s) / of_nat ?S) - 1))))"
      unfolding s using k bounded by simp
  qed
  from chart names labels each show ?thesis
    by - (rule exI [of _ ?ss], intro conjI, assumption+)
qed

theorem chart_reports_positive_counts_witness:
  "\<exists>ss. DistributionChart \<lparr>positive = 23, negative = 100, neutral = 37, extra = [],
                           own_keys = [''negative'', ''neutral'', ''positive'']\<rparr> = PieChart ss \<and>
        map name ss = [''negative'', ''neutral'', ''positive''] \<and>
        (\<forall>s \<in> set ss. name s = ''negative'' \<longrightarrow> percentage s = Digits ''62.50'') \<and>
        (\<forall>s \<in> set ss. name s = ''positive'' \<longrightarrow>
            percentage s = Digits ''14.38'' \<or> percentage s = Digits ''14.37'')"
proof -
  let ?d = "\<lparr>positive = 23, negative = 100, neutral = 37, extra = [],
            own_keys = [''negative'', ''neutral'', ''positive'']\<rparr>"
  let ?S = "positive ?d + negative ?d + neutral ?d"
  let ?exact = "\<lambda>s. round_half_up (100 * of_nat (val s) / of_nat ?S)"
  have wf: "well_formed ?d" by (auto simp: well_formed_def)
  have nz: "?S \<noteq> 0" by simp
  obtain ss where chart: "DistributionChart ?d = PieChart ss"
    and names: "map name ss = filter (\<lambda>k. 0 < field ?d k) (Object_keys ?d)"
    and each: "\<forall>s \<in> set ss.
        val s = field ?d (name s) \<and> 0 < val s \<and>
        percentage s = toFixed2 (js_mul (js_div (val s) (chart_total ?d)) 100) \<and>
        (?S < 2 ^ 53 \<and> val s \<le> 2 ^ 37 \<longrightarrow>
           (\<not> tie (val s) ?S \<longrightarrow> percentage s = Digits (two_decimals (?exact s))) \<and>
           (tie (val s) ?S \<longrightarrow>
              percentage s = Digits (two_decimals (?exact s)) \<or>
              percentage s = Digits (two_decimals (?exact s - 1))))"
    using chart_reports_positive_counts [OF wf nz] by blast
  have names': "map name ss = [''negative'', ''neutral'', ''positive'']"
    using names by (simp add: Object_keys_def field_def held_small)
  have exact: "?exact s = (20000 * val s + ?S) div (2 * ?S)" for s :: slice
    using nz by (intro hundredths) simp
  have neg: "percentage s = Digits ''62.50''" if s: "s \<in> set ss" and n: "name s = ''negative''" for s
  proof -
    have v: "val s = 100" using each s n by (simp add: field_def held_small)
    have "?S < 2 ^ 53 \<and> val s \<le> 2 ^ 37" using v by simp
    moreover have "\<not> tie (val s) ?S" using v by (simp add: tie_def)
    ultimately have "percentage s = Digits (two_decimals (?exact s))"
      using each s by blast
    also have "?exact s = 6250" unfolding exact using v by simp
    finally show ?thesis by (simp only: two_decimals_examples)
  qed
  have pos: "percentage s = Digits ''14.38'' \<or> percentage s = Digits ''14.37''"
    if s: "s \<in> set ss" and n: "name s = ''positive''" for s
  proof -
    have v: "val s = 23" using each s n by (simp add: field_def held_small)
    have "?S < 2 ^ 53 \<and> val s \<le> 2 ^ 37" using v by simp
    moreover have "tie (val s) ?S" using v by (simp add: tie_def)
    ultimately have "percentage s = Digits (two_decimals (?exact s)) \<or>
        percentage s = Digits (two_decimals (?exact s - 1))"
      using each s by blast
    moreover have "?exact s = 1438" unfolding exact using v by simp
    ultimately show ?thesis by (simp add: two_decimals_examples)
  qed
  have neg': "\<forall>s \<in> set ss. name s = ''negative'' \<longrightarrow> percentage s = Digits ''62.50''"
    by (intro ballI impI) (rule neg)
  have pos': "\<forall>s \<in> set ss. name s = ''positive'' \<longrightarrow>
      percentage s = Digits ''14.38'' \<or> percentage s = Digits ''14.37''"
    by (intro ballI impI) (rule pos)
  from chart names' neg' pos' show ?thesis
    by - (rule exI [of _ ss], intro conjI, assumption+)
qed

text \<open>
  Three charts worked out. The counts 45, 12 and 20 are rendered as 58.44, 15.58 and
  25.97, none of them a tie. An object that the server wrote in another order and with a
  fourth numeric property gives its slices in that order, the fourth property among them.
  And where the sum of the counts passes \<open>2 ^ 53\<close>, the percentages are those of the
  rounded sum: \<open>2 ^ 48\<close> of a total that the double addition rounds to \<open>2 ^ 53\<close> is
  3.125 per cent exactly and is rendered as 3.13.
\<close>

lemma chart_45_12_20:
  "DistributionChart \<lparr>positive = 45, negative = 12, neutral = 20, extra = [],
                      own_keys = [''positive'', ''negative'', ''neutral'']\<rparr> =
     PieChart [\<lparr>name = ''positive'', val = 45, percentage = Digits ''58.44''\<rparr>,
               \<lparr>name = ''negative'', val = 12, percentage = Digits ''15.58''\<rparr>,
               \<lparr>name = ''neutral'', val = 20, percentage = Digits ''25.97''\<rparr>]"
proof -
  let ?d = "\<lparr>positive = 45, negative = 12, neutral = 20, extra = [],
            own_keys = [''positive'', ''negative'', ''neutral'']\<rparr>"
  have t: "chart_total ?d = 77" by (simp add: total_exact)
  have p: "toFixed2 (js_mul (js_div c 77) 100) = Digits (two_decimals ((20000 * c + 77) div 154))"
    if "c \<le> 2 ^ 37" and "\<not> tie c 77" for c
  proof -
    have pos: "0 < (77::nat)" by simp
    from percentage_rounding [OF pos that(1)] that(2)
    have "toFixed2 (js_mul (js_div c 77) 100) =
        Digits (two_decimals (round_half_up (100 * of_nat c / of_nat 77)))"
      by blast
    then show ?thesis unfolding hundredths [OF pos] by simp
  qed
  have "toFixed2 (js_mul (js_div 45 77) 100) = Digits ''58.44''"
    by (subst p) (simp_all add: tie_def two_decimals_examples)
  moreover have "toFixed2 (js_mul (js_div 12 77) 100) = Digits ''15.58''"
    by (subst p) (simp_all add: tie_def two_decimals_examples)
  moreover have "toFixed2 (js_mul (js_div 20 77) 100) = Digits ''25.97''"
    by (subst p) (simp_all add: tie_def two_decimals_examples)
  ultimately show ?thesis
    by (simp add: DistributionChart_def Object_keys_def field_def held_small t
          del: js_mul.simps toFixed2.simps)
qed

lemma chart_with_extra_key:
  "DistributionChart \<lparr>positive = 3, negative = 1, neutral = 0, extra = [(''total'', 4)],
                      own_keys = [''negative'', ''neutral'', ''total'', ''positive'']\<rparr> =
     PieChart [\<lparr>name = ''negative'', val = 1, percentage = Digits ''25.00''\<rparr>,
               \<lparr>name = ''total'', val = 4, percentage = Digits ''100.00''\<rparr>,
               \<lparr>name = ''positive'', val = 3, percentage = Digits ''75.00''\<rparr>]"
proof -
  let ?d = "\<lparr>positive = 3, negative = 1, neutral = 0, extra = [(''total'', 4)],
            own_keys = [''negative'', ''neutral'', ''total'', ''positive'']\<rparr>"
  have t: "chart_total \<lparr>positive = 3, negative = Suc 0, neutral = 0, extra = [(''total'', 4)],
            own_keys = [''negative'', ''neutral'', ''total'', ''positive'']\<rparr> = 4"
    by (simp add: total_exact)
  have pos: "0 < (4::nat)" by simp
  have "\<not> tie 4 4" by (simp add: tie_def)
  with percentage_rounding [OF pos, of 4]
  have "toFixed2 (js_mul (js_div 4 4) 100) =
      Digits (two_decimals (round_half_up (100 * of_nat 4 / of_nat 4)))"
    by simp
  also have "\<dots> = Digits ''100.00''"
    unfolding hundredths [OF pos] by (simp add: two_decimals_def show_nat.simps digit_def)
  finally have whole: "toFixed2 (js_mul (js_div 4 4) 100) = Digits ''100.00''" .
  show ?thesis
    by (simp add: DistributionChart_def Object_keys_def field_def held_small t whole js_div_3_4
          js_div_Suc_4 js_mul_75 js_mul_25 toFixed2_75 toFixed2_25
          del: js_mul.simps toFixed2.simps)
qed

lemma js_div_rounded_total:
  "js_div 281474976710656 9007199254740992 = Finite 4503599627370496 (- 57)"
  by (simp add: js_div_def round_ratio_def bit_length.simps Let_def)

lemma js_mul_rounded_total:
  "js_mul (Finite 4503599627370496 (- 57)) 100 = Finite 7036874417766400 (- 51)"
  by (simp add: round_ratio_def bit_length.simps Let_def)

lemma toFixed2_rounded_total: "toFixed2 (Finite 7036874417766400 (- 51)) = Digits ''3.13''"
  by (simp add: two_decimals_def show_nat.simps digit_def)

lemma chart_rounds_total:
  "chart_total \<lparr>positive = 281474976710656, negative = 8725724278030337, neutral = 0,
                extra = [], own_keys = [''positive'', ''negative'', ''neutral'']\<rparr>
     = 9007199254740992 \<and>
   toFixed2 (js_mul (js_div 281474976710656 9007199254740992) 100) = Digits ''3.13''"
proof
  show "chart_total \<lparr>positive = 281474976710656, negative = 8725724278030337, neutral = 0,
                extra = [], own_keys = [''positive'', ''negative'', ''neutral'']\<rparr>
     = 9007199254740992"
    by (simp add: chart_total_def field_labels held_small sum_rounded)
  show "toFixed2 (js_mul (js_div 281474976710656 9007199254740992) 100) = Digits ''3.13''"
    by (simp only: js_div_rounded_total js_mul_rounded_total toFixed2_rounded_total)
qed

text \<open>
  Claim C6. When the three counts sum to zero the chart returns the explicit "no data"
  view and divides nothing. Otherwise the total it divides by, the double sum of the
  counts, is not zero, and the quotient behind each reported percentage is a finite
  number, never the \<open>NaN\<close> or \<open>Infinity\<close> that a JavaScript division by zero yields.
\<close>

theorem chart_guards_zero_total:
  "(positive d + negative d + neutral d = 0 \<longrightarrow>
      DistributionChart d = NoData) \<and>
   (positive d + negative d + neutral d \<noteq> 0 \<longrightarrow>
      chart_total d \<noteq> 0 \<and>
      (\<exists>ss. DistributionChart d = PieChart ss \<and>
        (\<forall>s \<in> set ss. \<exists>m e.
            js_div (val s) (chart_total d) = Finite m e \<and>
            percentage s = toFixed2 (js_mul (Finite m e) 100))))"
proof (intro conjI impI)
  assume "positive d + negative d + neutral d = 0"
  then show "DistributionChart d = NoData"
    by (simp add: DistributionChart_def total_zero)
next
  assume nz: "positive d + negative d + neutral d \<noteq> 0"
  then show "chart_total d \<noteq> 0" by (simp add: total_zero)
next
  assume nz: "positive d + negative d + neutral d \<noteq> 0"
  then have tz: "chart_total d \<noteq> 0" by (simp add: total_zero)
  let ?ss = "map (\<lambda>k. \<lparr>name = k, val = field d k,
         percentage = toFixed2 (js_mul (js_div (field d k) (chart_total d)) 100)\<rparr>)
       (filter (\<lambda>k. 0 < field d k) (Object_keys d))"
  have "DistributionChart d = PieChart ?ss"
    by (rule DistributionChart_slices [OF nz])
  moreover have "\<forall>s \<in> set ?ss. \<exists>m e. js_div (val s) (chart_total d) = Finite m e \<and>
            percentage s = toFixed2 (js_mul (Finite m e) 100)"
  proof
    fix s assume "s \<in> set ?ss"
    then obtain k where s: "s = \<lparr>name = k, val = field d k,
         percentage = toFixed2 (js_mul (js_div (field d k) (chart_total d)) 100)\<rparr>"
      by auto
    obtain m e where "js_div (field d k) (chart_total d) = Finite m e"
      using js_div_Finite [OF tz] by blast
    then show "\<exists>m e. js_div (val s) (chart_total d) = Finite m e \<and>
            percentage s = toFixed2 (js_mul (Finite m e) 100)"
      by (simp add: s)
  qed
  ultimately show "\<exists>ss. DistributionChart d = PieChart ss \<and>
        (\<forall>s \<in> set ss. \<exists>m e. js_div (val s) (chart_total d) = Finite m e \<and>
            percentage s = toFixed2 (js_mul (Finite m e) 100))"
    by blast
qed

theorem chart_guards_zero_total_witness:
  "DistributionChart \<lparr>positive = 0, negative = 0, neutral = 0, extra = [],
                      own_keys = [''positive'', ''negative'', ''neutral'']\<rparr> = NoData \<and>
   (\<exists>ss. DistributionChart \<lparr>positive = 3, negative = 1, neutral = 0, extra = [],
                            own_keys = [''positive'', ''negative'', ''neutral'']\<rparr>
           = PieChart ss \<and>
        (\<forall>s \<in> set ss. \<exists>m e. js_div (val s) 4 = Finite m e \<and>
            percentage s = toFixed2 (js_mul (Finite m e) 100)))"
proof -
  let ?z = "\<lparr>positive = 0, negative = 0, neutral = 0, extra = [],
            own_keys = [''positive'', ''negative'', ''neutral'']\<rparr>"
  let ?d = "\<lparr>positive = 3, negative = 1, neutral = 0, extra = [],
            own_keys = [''positive'', ''negative'', ''neutral'']\<rparr>"
  have none: "DistributionChart ?z = NoData"
    using chart_guards_zero_total [of ?z] by simp
  have t: "chart_total ?d = 4" by (rule total_3_1_0)
  have "positive ?d + negative ?d + neutral ?d \<noteq> 0" by simp
  with chart_guards_zero_total [of ?d]
  have "\<exists>ss. DistributionChart ?d = PieChart ss \<and>
        (\<forall>s \<in> set ss. \<exists>m e. js_div (val s) (chart_total ?d) = Finite m e \<and>
            percentage s = toFixed2 (js_mul (Finite m e) 100))"
    by blast
  then have some: "\<exists>ss. DistributionChart ?d = PieChart ss \<and>
        (\<forall>s \<in> set ss. \<exists>m e. js_div (val s) 4 = Finite m e \<and>
            percentage s = toFixed2 (js_mul (Finite m e) 100))"
    unfolding t .
  from none some show ?thesis by (rule conjI)
qed

section \<open>Properties of the hourly trend\<close>

subsection \<open>The buckets after the loop\<close>

lemma increment_counted:
  "increment ''positive'' (counted a b c) = counted (Suc a) b c"
  "increment ''negative'' (counted a b c) = counted a (Suc b) c"
  "increment ''neutral'' (counted a b c) = counted a b (Suc c)"
  by (simp_all add: increment_def counted_def)

lemma new_bucket_counted: "new_bucket = counted 0 0 0"
  by (simp add: new_bucket_def counted_def)

lemma tally_Nil: "tally gh [] h l = 0"
  by (simp add: tally_def)

lemma tally_snoc:
  "tally gh (ps @ [p]) h l =
     tally gh ps h l + (if gh (created_at p) = h \<and> label (sentiment p) = l then 1 else 0)"
  by (simp add: tally_def)

lemma keys_ensure_bucket: "fst ` set (ensure_bucket h bs) = insert h (fst ` set bs)"
proof (cases "map_of bs h")
  case None
  then show ?thesis by (simp add: ensure_bucket_def)
next
  case (Some b)
  then have "(h, b) \<in> set bs" by (rule map_of_SomeD)
  then have "h \<in> fst ` set bs" by force
  then show ?thesis using Some by (auto simp: ensure_bucket_def)
qed

lemma distinct_ensure_bucket:
  "distinct (map fst bs) \<Longrightarrow> distinct (map fst (ensure_bucket h bs))"
  by (auto simp: ensure_bucket_def map_of_eq_None_iff split: option.splits)

lemma map_of_ensure_bucket:
  "map_of (ensure_bucket h bs) k = (if k = h then Some (bucket_at bs h) else map_of bs k)"
  by (auto simp: ensure_bucket_def bucket_at_def map_add_def split: option.splits)

lemma keys_count_post:
  "fst ` set (count_post gh p bs) = insert (gh (created_at p)) (fst ` set bs)"
  by (simp add: count_post_def Let_def dom_map_entry keys_ensure_bucket)

lemma distinct_count_post:
  "distinct (map fst bs) \<Longrightarrow> distinct (map fst (count_post gh p bs))"
  by (simp add: count_post_def Let_def distinct_map_entry distinct_ensure_bucket)

lemma bucket_at_count_post:
  "bucket_at (count_post gh p bs) k =
     (if k = gh (created_at p) then increment (label (sentiment p)) (bucket_at bs k)
      else bucket_at bs k)"
  by (simp add: bucket_at_def count_post_def Let_def map_of_map_entry map_of_ensure_bucket)

lemma fill_buckets_Nil: "fill_buckets gh [] = []"
  by (simp add: fill_buckets_def)

lemma fill_buckets_snoc: "fill_buckets gh (ps @ [p]) = count_post gh p (fill_buckets gh ps)"
  by (simp add: fill_buckets_def)

lemma keys_fill_buckets:
  "fst ` set (fill_buckets gh ps) = (\<lambda>p. gh (created_at p)) ` set ps"
  by (induction ps rule: rev_induct)
     (auto simp: fill_buckets_Nil fill_buckets_snoc keys_count_post)

lemma distinct_fill_buckets: "distinct (map fst (fill_buckets gh ps))"
  by (induction ps rule: rev_induct)
     (simp_all add: fill_buckets_Nil fill_buckets_snoc distinct_count_post)

lemma bucket_at_fill_buckets:
  assumes "\<forall>p \<in> set ps. known_label p"
  shows "bucket_at (fill_buckets gh ps) h =
     counted (tally gh ps h ''positive'') (tally gh ps h ''negative'') (tally gh ps h ''neutral'')"
  using assms
proof (induction ps arbitrary: h rule: rev_induct)
  case Nil
  show ?case
    by (simp add: fill_buckets_Nil bucket_at_def tally_Nil new_bucket_counted)
next
  case (snoc p ps)
  have IH: "\<And>k. bucket_at (fill_buckets gh ps) k =
     counted (tally gh ps k ''positive'') (tally gh ps k ''negative'') (tally gh ps k ''neutral'')"
    using snoc by simp
  have "known_label p" using snoc.prems by simp
  then consider "label (sentiment p) = ''positive''" | "label (sentiment p) = ''negative''"
    | "label (sentiment p) = ''neutral''"
    by (auto simp: known_label_def)
  then show ?case
    by cases
       (simp_all add: fill_buckets_snoc bucket_at_count_post IH tally_snoc increment_counted)
qed

lemma map_of_bucket_at: "k \<in> fst ` set bs \<Longrightarrow> map_of bs k = Some (bucket_at bs k)"
  by (cases "map_of bs k") (simp_all add: bucket_at_def map_of_eq_None_iff)

lemma spread_counted:
  "spread (counted a b c) [(''timestamp'', Str s)] =
     [(''timestamp'', Str s), (''positive'', Num (Some a)),
      (''negative'', Num (Some b)), (''neutral'', Num (Some c))]"
  by (simp add: spread_def counted_def)

lemma trend_point_fill_buckets:
  assumes "\<forall>p \<in> set ps. known_label p" and "k \<in> fst ` set (fill_buckets gh ps)"
  shows "trend_point (fill_buckets gh ps) k =
     point k (tally gh ps k ''positive'') (tally gh ps k ''negative'') (tally gh ps k ''neutral'')"
  by (simp add: trend_point_def map_of_bucket_at [OF assms(2)]
        bucket_at_fill_buckets [OF assms(1)] spread_counted point_def)

subsection \<open>The enumeration order of the keys\<close>

lemma set_map_filter_id: "set (List.map_filter id ks) = {n. Some n \<in> set ks}"
  by (induction ks) (auto split: option.splits)

lemma distinct_map_filter_id: "distinct ks \<Longrightarrow> distinct (List.map_filter id ks)"
  by (induction ks) (auto simp: set_map_filter_id split: option.splits)

lemma filter_None_distinct:
  "distinct ks \<Longrightarrow> filter (\<lambda>k. k = None) ks = (if None \<in> set ks then [None] else [])"
  by (induction ks) (auto simp: filter_empty_conv)

lemma set_bucket_keys: "set (bucket_keys bs) = fst ` set bs"
proof -
  have "set (bucket_keys bs) = Some ` {n. Some n \<in> fst ` set bs} \<union> {k \<in> fst ` set bs. k = None}"
    by (simp add: bucket_keys_def set_map_filter_id)
  also have "\<dots> = fst ` set bs"
  proof (rule set_eqI)
    fix k show "k \<in> Some ` {n. Some n \<in> fst ` set bs} \<union> {k \<in> fst ` set bs. k = None}
        \<longleftrightarrow> k \<in> fst ` set bs"
      by (cases k) auto
  qed
  finally show ?thesis .
qed

lemma distinct_bucket_keys:
  "distinct (map fst bs) \<Longrightarrow> distinct (bucket_keys bs)"
  by (auto simp: bucket_keys_def distinct_map distinct_map_filter_id)

lemma bucket_keys_sorted:
  assumes "distinct (map fst bs)"
  shows "\<exists>ks. bucket_keys bs =
            map Some ks @ (if None \<in> fst ` set bs then [None] else []) \<and>
          sorted_wrt (<) ks \<and> set ks = {n. Some n \<in> fst ` set bs}"
proof -
  let ?ks = "sort (List.map_filter id (map fst bs))"
  have "filter (\<lambda>k. k = None) (map fst bs) = (if None \<in> fst ` set bs then [None] else [])"
    using filter_None_distinct [OF assms] by simp
  then have "bucket_keys bs = map Some ?ks @ (if None \<in> fst ` set bs then [None] else [])"
    by (simp add: bucket_keys_def)
  moreover have "sorted_wrt (<) ?ks"
    using distinct_map_filter_id [OF assms] by (simp add: strict_sorted_iff)
  moreover have "set ?ks = {n. Some n \<in> fst ` set bs}"
    by (simp add: set_map_filter_id)
  ultimately show ?thesis by blast
qed

lemma trendData_points:
  assumes "\<forall>p \<in> set ps. known_label p"
  shows "trendData gh ps =
     map (\<lambda>k. point k (tally gh ps k ''positive'') (tally gh ps k ''negative'')
                       (tally gh ps k ''neutral''))
         (bucket_keys (fill_buckets gh ps))"
  unfolding trendData_def Let_def
  by (rule map_cong [OF refl])
     (simp add: trend_point_fill_buckets [OF assms] set_bucket_keys)

lemma sorted_keys_unique:
  assumes "sorted_wrt (<) ks" and "set ks = A"
  shows "ks = sorted_list_of_set A"
proof -
  have "finite A" using assms(2) by auto
  then show ?thesis
    using assms by (auto simp: strict_sorted_iff intro: sorted_distinct_set_unique)
qed

lemma set_map_filter_hours:
  "set (List.map_filter f ps) = {h. Some h \<in> f ` set ps}"
  by (induction ps) (auto split: option.splits)

subsection \<open>Counting\<close>

lemma count_of_point:
  "count_of (point k a b c) ''positive'' = Some a"
  "count_of (point k a b c) ''negative'' = Some b"
  "count_of (point k a b c) ''neutral'' = Some c"
  by (simp_all add: count_of_def point_def)

lemma fold_counts_points:
  "fold (\<lambda>e acc. js_add acc (js_add (js_add (count_of e ''positive'') (count_of e ''negative''))
                                     (count_of e ''neutral'')))
        (map (\<lambda>k. point k (a k) (b k) (c k)) ks) (Some n) =
   Some (n + sum_list (map (\<lambda>k. a k + b k + c k) ks))"
  by (induction ks arbitrary: n) (simp_all add: count_of_point js_add_def)

lemma tally_all_labels:
  assumes "\<forall>p \<in> set ps. known_label p"
  shows "tally gh ps k ''positive'' + tally gh ps k ''negative'' + tally gh ps k ''neutral'' =
         length (filter (\<lambda>p. gh (created_at p) = k) ps)"
  using assms by (induction ps) (auto simp: tally_def known_label_def)

lemma sum_indicator:
  "distinct ks \<Longrightarrow> x \<in> set ks \<Longrightarrow> sum_list (map (\<lambda>k. if x = k then 1 else 0) ks) = (1::nat)"
proof (induction ks)
  case Nil
  then show ?case by simp
next
  case (Cons k ks)
  show ?case
  proof (cases "x = k")
    case True
    then have "x \<notin> set ks" using Cons.prems by simp
    then have "sum_list (map (\<lambda>k. if x = k then 1 else 0) ks) = (0::nat)"
      by (induction ks) auto
    then show ?thesis using True by simp
  next
    case False
    then show ?thesis using Cons by simp
  qed
qed

lemma sum_filter_lengths:
  "distinct ks \<Longrightarrow> f ` set ps \<subseteq> set ks \<Longrightarrow>
   sum_list (map (\<lambda>k. length (filter (\<lambda>p. f p = k) ps)) ks) = length ps"
proof (induction ps)
  case Nil
  then show ?case by simp
next
  case (Cons p ps)
  have "sum_list (map (\<lambda>k. length (filter (\<lambda>q. f q = k) (p # ps))) ks) =
        sum_list (map (\<lambda>k. (if f p = k then 1 else 0) + length (filter (\<lambda>q. f q = k) ps)) ks)"
    by (rule arg_cong [where f = sum_list], rule map_cong [OF refl]) simp
  also have "\<dots> = sum_list (map (\<lambda>k. if f p = k then 1 else 0) ks) +
                   sum_list (map (\<lambda>k. length (filter (\<lambda>q. f q = k) ps)) ks)"
    by (simp add: sum_list_addf)
  also have "\<dots> = 1 + length ps"
    using Cons by (simp add: sum_indicator)
  finally show ?case by simp
qed

subsection \<open>The claims about the trend\<close>

text \<open>
  Claim C4. For every post list whose posts carry a label in
  \<open>{positive, negative, neutral}\<close> and a timestamp that parses, the trend has exactly
  one point per distinct hour occurring in the list. The point of hour \<open>h\<close> is labelled
  \<open>Hour h\<close> and carries, for each of the three labels, the number of posts of that hour
  with that label, 0 where there is none. The empty list yields the empty trend, and two
  posts in hour 10 (one positive, one negative) with one neutral post in hour 14 yield
  exactly the two points \<open>{positive: 1, negative: 1, neutral: 0}\<close> and
  \<open>{positive: 0, negative: 0, neutral: 1}\<close>.
\<close>

theorem trend_one_bucket_per_hour:
  "((\<forall>p \<in> set ps. label (sentiment p) \<in> {''positive'', ''negative'', ''neutral''} \<and>
                   gh (created_at p) \<noteq> None) \<longrightarrow>
     trendData gh ps =
       map (\<lambda>h. [(''timestamp'', Str (''Hour '' @ show_nat h)),
                 (''positive'', Num (Some (tally gh ps (Some h) ''positive''))),
                 (''negative'', Num (Some (tally gh ps (Some h) ''negative''))),
                 (''neutral'', Num (Some (tally gh ps (Some h) ''neutral'')))])
           (sorted_list_of_set (set (List.map_filter (\<lambda>p. gh (created_at p)) ps)))) \<and>
   trendData gh [] = [] \<and>
   trendData example_hours example_posts =
     [[(''timestamp'', Str ''Hour 10''), (''positive'', Num (Some 1)),
       (''negative'', Num (Some 1)), (''neutral'', Num (Some 0))],
      [(''timestamp'', Str ''Hour 14''), (''positive'', Num (Some 0)),
       (''negative'', Num (Some 0)), (''neutral'', Num (Some 1))]]"
proof (intro conjI impI)
  assume a: "\<forall>p \<in> set ps. label (sentiment p) \<in> {''positive'', ''negative'', ''neutral''} \<and>
                   gh (created_at p) \<noteq> None"
  then have known: "\<forall>p \<in> set ps. known_label p"
    by (simp add: known_label_def)
  have noNaN: "None \<notin> (\<lambda>p. gh (created_at p)) ` set ps"
    using a by force
  obtain ks where keys: "bucket_keys (fill_buckets gh ps) = map Some ks"
    and sorted: "sorted_wrt (<) ks"
    and set: "set ks = {h. Some h \<in> (\<lambda>p. gh (created_at p)) ` set ps}"
    using bucket_keys_sorted [OF distinct_fill_buckets, of gh ps] noNaN
    by (auto simp: keys_fill_buckets)
  have "ks = sorted_list_of_set (set (List.map_filter (\<lambda>p. gh (created_at p)) ps))"
    using sorted set by (simp add: sorted_keys_unique set_map_filter_hours)
  then show "trendData gh ps =
       map (\<lambda>h. [(''timestamp'', Str (''Hour '' @ show_nat h)),
                 (''positive'', Num (Some (tally gh ps (Some h) ''positive''))),
                 (''negative'', Num (Some (tally gh ps (Some h) ''negative''))),
                 (''neutral'', Num (Some (tally gh ps (Some h) ''neutral'')))])
           (sorted_list_of_set (set (List.map_filter (\<lambda>p. gh (created_at p)) ps)))"
    by (simp add: trendData_points [OF known] keys point_def key_text_def comp_def)
next
  show "trendData gh [] = []"
    by (simp add: trendData_def fill_buckets_def bucket_keys_def)
next
  have b: "fill_buckets example_hours example_posts =
      [(Some 10, counted (Suc 0) (Suc 0) 0), (Some 14, counted 0 0 (Suc 0))]"
    by (simp add: fill_buckets_def example_posts_def example_hours_def count_post_def
        ensure_bucket_def increment_def new_bucket_def counted_def)
  have k: "bucket_keys [(Some 10, counted (Suc 0) (Suc 0) 0), (Some 14, counted 0 0 (Suc 0))]
      = [Some 10, Some 14]"
    by (simp add: bucket_keys_def)
  have t: "show_nat 10 = ''10''" "show_nat 14 = ''14''"
    by (simp_all add: show_nat.simps digit_def)
  show "trendData example_hours example_posts =
     [[(''timestamp'', Str ''Hour 10''), (''positive'', Num (Some 1)),
       (''negative'', Num (Some 1)), (''neutral'', Num (Some 0))],
      [(''timestamp'', Str ''Hour 14''), (''positive'', Num (Some 0)),
       (''negative'', Num (Some 0)), (''neutral'', Num (Some 1))]]"
    by (simp add: trendData_def Let_def b k trend_point_def spread_counted key_text_def t)
qed

theorem trend_one_bucket_per_hour_witness:
  "trendData example_hours example_posts =
     map (\<lambda>h. [(''timestamp'', Str (''Hour '' @ show_nat h)),
               (''positive'', Num (Some (tally example_hours example_posts (Some h) ''positive''))),
               (''negative'', Num (Some (tally example_hours example_posts (Some h) ''negative''))),
               (''neutral'', Num (Some (tally example_hours example_posts (Some h) ''neutral'')))])
         (sorted_list_of_set
            (set (List.map_filter (\<lambda>p. example_hours (created_at p)) example_posts)))"
proof -
  have "\<forall>p \<in> set example_posts.
          label (sentiment p) \<in> {''positive'', ''negative'', ''neutral''} \<and>
          example_hours (created_at p) \<noteq> None"
    by (simp add: example_posts_def example_hours_def)
  with trend_one_bucket_per_hour [of example_posts example_hours] show ?thesis
    by blast
qed

text \<open>
  Claim C5. For every post list whose posts carry a label in
  \<open>{positive, negative, neutral}\<close>, the three label counters of all trend points
  together sum to the length of the list. Posts whose timestamp does not parse are
  counted too: they share the point of the key \<open>NaN\<close>.
\<close>

theorem trend_counts_sum_to_length:
  assumes "\<forall>p \<in> set ps. label (sentiment p) \<in> {''positive'', ''negative'', ''neutral''}"
  shows "total_counts (trendData gh ps) = Some (length ps)"
proof -
  have known: "\<forall>p \<in> set ps. known_label p"
    using assms by (simp add: known_label_def)
  let ?ks = "bucket_keys (fill_buckets gh ps)"
  have "total_counts (trendData gh ps) =
        Some (0 + sum_list (map (\<lambda>k. tally gh ps k ''positive'' + tally gh ps k ''negative'' +
                                      tally gh ps k ''neutral'') ?ks))"
    unfolding total_counts_def trendData_points [OF known] by (rule fold_counts_points)
  also have "\<dots> = Some (sum_list (map (\<lambda>k. length (filter (\<lambda>p. gh (created_at p) = k) ps)) ?ks))"
    by (simp add: tally_all_labels [OF known])
  also have "\<dots> = Some (length ps)"
    by (simp add: sum_filter_lengths distinct_bucket_keys distinct_fill_buckets
          set_bucket_keys keys_fill_buckets)
  finally show ?thesis .
qed

theorem trend_counts_sum_to_length_witness:
  "total_counts (trendData example_hours
      (\<lparr>post_id = ''0'', content = ''hm'', created_at = ''yesterday'',
        sentiment = \<lparr>label = ''positive''\<rparr>\<rparr> # example_posts)) = Some 4"
proof -
  let ?ps = "\<lparr>post_id = ''0'', content = ''hm'', created_at = ''yesterday'',
        sentiment = \<lparr>label = ''positive''\<rparr>\<rparr> # example_posts"
  have "\<forall>p \<in> set ?ps. label (sentiment p) \<in> {''positive'', ''negative'', ''neutral''}"
    by (simp add: example_posts_def)
  from trend_counts_sum_to_length [OF this] show ?thesis
    by (simp add: example_posts_def)
qed

text \<open>
  Claim C10. For every post list, the trend points are produced in the enumeration order
  of the keys of \<open>buckets\<close>: the hour keys in strictly ascending order, each hour that
  occurs in the list exactly once, followed by the point of the key \<open>NaN\<close> if some
  timestamp did not parse. The order depends on the set of hours only, not on the order
  of the posts.
\<close>

theorem trend_keys_ascending:
  "\<exists>ks. trendData gh ps =
           map (trend_point (fill_buckets gh ps))
               (map Some ks @
                (if None \<in> (\<lambda>p. gh (created_at p)) ` set ps then [None] else [])) \<and>
         sorted_wrt (<) ks \<and>
         set ks = {h. Some h \<in> (\<lambda>p. gh (created_at p)) ` set ps}"
proof -
  obtain ks where keys: "bucket_keys (fill_buckets gh ps) =
        map Some ks @ (if None \<in> (\<lambda>p. gh (created_at p)) ` set ps then [None] else [])"
    and sorted: "sorted_wrt (<) ks"
    and set: "set ks = {h. Some h \<in> (\<lambda>p. gh (created_at p)) ` set ps}"
    using bucket_keys_sorted [OF distinct_fill_buckets, of gh ps]
    unfolding keys_fill_buckets by blast
  have "trendData gh ps = map (trend_point (fill_buckets gh ps))
      (map Some ks @ (if None \<in> (\<lambda>p. gh (created_at p)) ` set ps then [None] else []))"
    unfolding trendData_def Let_def keys ..
  with sorted set show ?thesis by blast
qed

section \<open>Properties of the dashboard state\<close>

lemma run_Nil: "run gh parse [] s = s"
  by (simp add: run_def)

lemma run_Cons: "run gh parse (ev # evs) s = run gh parse evs (fst (dispatch gh parse ev s))"
  by (simp add: run_def)

subsection \<open>The REST completions\<close>

text \<open>
  Claim C3, as the specification states it, counts a non-success HTTP status among the
  failures that leave the state alone. Neither wrapper looks at the status: it decodes
  whatever body arrived. A 404 whose body is a JSON object without a \<open>distribution\<close>
  property, as the error bodies of the API are, replaces the stored distribution by
  \<open>undefined\<close>.
\<close>

theorem error_status_with_json_body_replaces_distribution:
  "distribution initial =
     Some \<lparr>positive = 0, negative = 0, neutral = 0, extra = [],
           own_keys = [''positive'', ''negative'', ''neutral'']\<rparr> \<and>
   distribution (fst (distribution_settled
      (Response 404 (Some \<lparr>body_distribution = None\<rparr>)) initial)) = None"
  by (simp add: initial_def distribution_settled_def)

text \<open>
  Claim C3, amended. A REST fetch that fails with a network error, or whose response
  body is not JSON text (whatever its HTTP status), leaves the whole state, and so the
  stored distribution, post list and trend, exactly as it was. The HTTP status is never
  inspected: a response with a non-success status and a JSON body is handled exactly as
  a successful response with that body.
\<close>

theorem failed_fetch_without_json_keeps_state:
  "fst (distribution_settled Rejected s) = s \<and>
   fst (distribution_settled (Response code None) s) = s \<and>
   fst (posts_settled gh Rejected s) = s \<and>
   fst (posts_settled gh (Response code None) s) = s \<and>
   distribution_settled (Response code (Some d)) s =
     distribution_settled (Response 200 (Some d)) s \<and>
   posts_settled gh (Response code (Some d')) s =
     posts_settled gh (Response 200 (Some d')) s"
  by (simp add: distribution_settled_def posts_settled_def)

subsection \<open>Channel messages\<close>

text \<open>
  Claim C7, as the specification states it, has the handler treat a message that is not
  JSON as a no-op instead of raising. The handler calls \<open>JSON.parse\<close> with nothing
  around it, so the \<open>SyntaxError\<close> leaves the callback.
\<close>

theorem unparseable_message_throws_out_of_callback:
  "snd (ws_onmessage example_parse ''not json'' ''12:00:00'' initial) = Some SyntaxError"
  by (simp add: ws_onmessage_def example_parse_def)

text \<open>
  Claim C7, amended. For every inbound channel message whose data is not valid JSON,
  \<open>JSON.parse\<close> raises a \<open>SyntaxError\<close> out of the \<open>onmessage\<close> callback before the
  dashboard's message callback runs; the error is not caught, and the state (connection
  status and last-update time included) is left unchanged.
\<close>

theorem unparseable_message_raises:
  "parse data = None \<Longrightarrow> ws_onmessage parse data now s = (s, Some SyntaxError)"
  by (simp add: ws_onmessage_def)

theorem unparseable_message_raises_witness:
  "ws_onmessage example_parse ''not json'' ''12:00:00'' initial = (initial, Some SyntaxError)"
  by (rule unparseable_message_raises) (simp add: example_parse_def)

text \<open>
  Claim C8. The dashboard's message callback sets the connection status to
  \<open>connected\<close> and the last-update time, and nothing else: the stored distribution, post
  list and trend are the same after it as before. The same three are unchanged by
  \<open>ws.onmessage\<close> for every message data, parseable or not.
\<close>

theorem message_changes_status_and_time_only:
  "distribution (onMessage msg now s) = distribution s \<and>
   posts (onMessage msg now s) = posts s \<and>
   trend (onMessage msg now s) = trend s \<and>
   status (onMessage msg now s) = Connected \<and>
   lastUpdate (onMessage msg now s) = now \<and>
   distribution (fst (ws_onmessage parse data now s)) = distribution s \<and>
   posts (fst (ws_onmessage parse data now s)) = posts s \<and>
   trend (fst (ws_onmessage parse data now s)) = trend s"
  by (simp add: onMessage_def ws_onmessage_def split: option.split)

subsection \<open>The connection status\<close>

lemma dispatch_status_cong:
  "status s = status t \<Longrightarrow>
   status (fst (dispatch gh parse ev s)) = status (fst (dispatch gh parse ev t))"
  by (cases ev)
     (auto simp: distribution_settled_def posts_settled_def ws_onmessage_def onMessage_def
        onError_def onClose_def split: sum.splits option.splits)

lemma run_status_cong:
  "status s = status t \<Longrightarrow> status (run gh parse evs s) = status (run gh parse evs t)"
proof (induction evs arbitrary: s t)
  case Nil
  then show ?case by (simp add: run_Nil)
next
  case (Cons ev evs)
  show ?case
    unfolding run_Cons
    by (rule Cons.IH) (rule dispatch_status_cong [OF Cons.prems])
qed

lemma rest_keeps_status:
  "\<not> is_channel ev \<Longrightarrow> status (fst (dispatch gh parse ev s)) = status s"
  by (cases ev)
     (auto simp: distribution_settled_def posts_settled_def split: sum.splits option.splits)

lemma run_filter_channel:
  "status (run gh parse evs s) = status (run gh parse (filter is_channel evs) s)"
proof (induction evs arbitrary: s)
  case Nil
  show ?case by simp
next
  case (Cons ev evs)
  show ?case
  proof (cases "is_channel ev")
    case True
    then show ?thesis by (simp add: run_Cons Cons.IH)
  next
    case False
    have "status (run gh parse evs (fst (dispatch gh parse ev s))) = status (run gh parse evs s)"
      by (rule run_status_cong) (rule rest_keeps_status [OF False])
    then show ?thesis using False by (simp add: run_Cons Cons.IH)
  qed
qed

text \<open>
  Claim C9. Neither REST completion writes the connection status, whether the fetch
  succeeded or failed. So after any sequence of events the status is the one that the
  channel callbacks (message, error, close) of that sequence alone would have left: only
  they have ever written it.
\<close>

theorem status_written_by_channel_only:
  "status (fst (distribution_settled r s)) = status s \<and>
   status (fst (posts_settled gh r' s)) = status s \<and>
   status (run gh parse evs s) = status (run gh parse (filter is_channel evs) s)"
proof (intro conjI)
  show "status (fst (distribution_settled r s)) = status s"
    using rest_keeps_status [of "DistributionSettled r" gh parse s] by simp
  show "status (fst (posts_settled gh r' s)) = status s"
    using rest_keeps_status [of "PostsSettled r'" gh parse s] by simp
  show "status (run gh parse evs s) = status (run gh parse (filter is_channel evs) s)"
    by (rule run_filter_channel)
qed

lemma never_back_to_connecting_step:
  "status s \<noteq> Connecting \<Longrightarrow> status (fst (dispatch gh parse ev s)) \<noteq> Connecting"
  by (cases ev)
     (auto simp: distribution_settled_def posts_settled_def ws_onmessage_def onMessage_def
        onError_def onClose_def split: sum.splits option.splits)

lemma never_back_to_connecting:
  "status s \<noteq> Connecting \<Longrightarrow> status (run gh parse evs s) \<noteq> Connecting"
proof (induction evs arbitrary: s)
  case Nil
  then show ?case by (simp add: run_Nil)
next
  case (Cons ev evs)
  show ?case
    unfolding run_Cons
    by (rule Cons.IH) (rule never_back_to_connecting_step [OF Cons.prems])
qed

lemma stays_disconnected_step:
  "status s = Disconnected \<Longrightarrow> \<not> parsed_message parse ev \<Longrightarrow>
   status (fst (dispatch gh parse ev s)) = Disconnected"
  by (cases ev)
     (auto simp: distribution_settled_def posts_settled_def ws_onmessage_def onMessage_def
        onError_def onClose_def split: sum.splits option.splits)

lemma stays_disconnected:
  "status s = Disconnected \<Longrightarrow> \<forall>ev \<in> set evs. \<not> parsed_message parse ev \<Longrightarrow>
   status (run gh parse evs s) = Disconnected"
proof (induction evs arbitrary: s)
  case Nil
  then show ?case by (simp add: run_Nil)
next
  case (Cons ev evs)
  have "status (fst (dispatch gh parse ev s)) = Disconnected"
    using Cons.prems by (simp add: stays_disconnected_step)
  then show ?case
    unfolding run_Cons using Cons.prems by (simp add: Cons.IH)
qed

text \<open>
  Claim C2, as the specification states it, makes \<open>disconnected\<close> final: no later event,
  a channel message included, changes the status again. The message callback sets
  \<open>connected\<close> whatever the status is, so a message delivered after an error moves the
  status from \<open>disconnected\<close> back to \<open>connected\<close>.
\<close>

theorem message_after_error_reconnects:
  "status (run example_hours example_parse [ChannelError] initial) = Disconnected \<and>
   status (run example_hours example_parse
             [ChannelError, ChannelMessage ''{}'' ''12:00:00''] initial) = Connected"
  by (simp add: run_def onError_def ws_onmessage_def onMessage_def example_parse_def
        initial_def)

text \<open>
  Claim C2, amended. The connection status starts at \<open>connecting\<close>. Every channel
  message whose data parses sets it to \<open>connected\<close>, and every channel error or close
  sets it to \<open>disconnected\<close>, whatever it was before. Once it has left \<open>connecting\<close> no
  event returns it there, and once it is \<open>disconnected\<close> it stays so under every event
  other than a channel message whose data parses.
\<close>

theorem status_set_unconditionally:
  "status initial = Connecting \<and>
   (parse data \<noteq> None \<longrightarrow>
      status (fst (dispatch gh parse (ChannelMessage data now) s)) = Connected) \<and>
   status (fst (dispatch gh parse ChannelError s)) = Disconnected \<and>
   status (fst (dispatch gh parse ChannelClose s)) = Disconnected \<and>
   (status s \<noteq> Connecting \<longrightarrow> status (run gh parse evs s) \<noteq> Connecting) \<and>
   (status s = Disconnected \<and> (\<forall>ev \<in> set evs. \<not> parsed_message parse ev) \<longrightarrow>
      status (run gh parse evs s) = Disconnected)"
proof (intro conjI impI)
  show "status initial = Connecting"
    by (simp add: initial_def)
  show "status (fst (dispatch gh parse (ChannelMessage data now) s)) = Connected"
    if "parse data \<noteq> None"
    using that by (auto simp: ws_onmessage_def onMessage_def)
  show "status (fst (dispatch gh parse ChannelError s)) = Disconnected"
    by (simp add: onError_def)
  show "status (fst (dispatch gh parse ChannelClose s)) = Disconnected"
    by (simp add: onClose_def)
  show "status (run gh parse evs s) \<noteq> Connecting" if "status s \<noteq> Connecting"
    using that by (rule never_back_to_connecting)
  show "status (run gh parse evs s) = Disconnected"
    if "status s = Disconnected \<and> (\<forall>ev \<in> set evs. \<not> parsed_message parse ev)"
    using that by (simp add: stays_disconnected)
qed

theorem status_set_unconditionally_witness:
  "status (fst (dispatch example_hours example_parse (ChannelMessage ''{}'' ''12:00:00'')
                  (onError initial))) = Connected \<and>
   status (run example_hours example_parse
      [ChannelMessage ''{}'' ''12:00:00'', DistributionSettled Rejected] (onError initial))
     \<noteq> Connecting \<and>
   status (run example_hours example_parse
      [ChannelMessage ''not json'' ''12:00:00'', PostsSettled Rejected, ChannelClose]
      (onError initial)) = Disconnected"
proof -
  have a: "example_parse ''{}'' \<noteq> None"
    by (simp add: example_parse_def)
  have b: "status (onError initial) \<noteq> Connecting"
    by (simp add: onError_def)
  have c: "status (onError initial) = Disconnected \<and>
      (\<forall>ev \<in> set [ChannelMessage ''not json'' ''12:00:00'', PostsSettled Rejected, ChannelClose].
          \<not> parsed_message example_parse ev)"
    by (simp add: onError_def example_parse_def)
  show ?thesis
    using a b c
      status_set_unconditionally [where parse = example_parse and data = "''{}''"
             and gh = example_hours and now = "''12:00:00''" and s = "onError initial"
             and evs = "[ChannelMessage ''{}'' ''12:00:00'', DistributionSettled Rejected]"]
      status_set_unconditionally [where parse = example_parse and data = "''{}''"
             and gh = example_hours and now = "''12:00:00''" and s = "onError initial"
             and evs = "[ChannelMessage ''not json'' ''12:00:00'', PostsSettled Rejected,
                         ChannelClose]"]
    by blast
qed

end
